theory Spec2Isabelle
  imports Complex_Main
begin

section \<open>Arrays\<close>

text \<open>
  The module \<^verbatim>\<open>alphacsc/update_d_multi.py\<close> works on dense numpy arrays of
  floats. An array is modelled by nested lists, one level per axis, and a float by a
  real number: a theorem about these definitions is a statement of exact arithmetic.
  The projector is modelled a second time, in binary64 arithmetic with its rounding,
  overflow and special values, for the properties that depend on them.
\<close>

type_synonym vec = "real list"
type_synonym mat = "real list list"
type_synonym ten = "real list list list"

datatype error = AssertionError | ValueError | TypeError | NameError

section \<open>The proximal projector\<close>

text \<open>
  \<^verbatim>\<open>
  def prox_uv(uv):
      norm_uv = np.maximum(1, np.linalg.norm(uv, axis=1)[:, None])
      return uv / norm_uv
  \<close>
  \<open>norm_axis1\<close> is \<^verbatim>\<open>np.linalg.norm(uv, axis=1)\<close>, the Euclidean norm of every row.
  \<open>norm_uv\<close> has one column, so the division broadcasts it along each row of \<open>uv\<close>;
  a row of \<open>uv\<close> and its one-element row of \<open>norm_uv\<close> always fit.
\<close>

definition norm2 :: "vec \<Rightarrow> real" where
  "norm2 row = sqrt (sum_list (map (\<lambda>x. x * x) row))"

definition norm_axis1 :: "mat \<Rightarrow> vec" where
  "norm_axis1 uv = map norm2 uv"

definition norm_uv :: "mat \<Rightarrow> mat" where
  "norm_uv uv = map (\<lambda>n. [max 1 n]) (norm_axis1 uv)"

definition prox_uv :: "mat \<Rightarrow> mat" where
  "prox_uv uv = map2 (\<lambda>row d. map (\<lambda>x. x / hd d) row) uv (norm_uv uv)"

section \<open>Library operations\<close>

text \<open>
  Only rectangular nested lists stand for arrays, and a nested list does not record
  the lengths of the axes below an axis of length 0; the theorems about tensors assume
  axes of positive length where that matters.

  \<open>shape3\<close> is \<^verbatim>\<open>A.shape\<close> of a three-dimensional array.
\<close>

definition shape3 :: "ten \<Rightarrow> nat \<times> nat \<times> nat" where
  "shape3 A =
     (length A,
      (case A of [] \<Rightarrow> 0 | m # _ \<Rightarrow> length m),
      (case A of (r # _) # _ \<Rightarrow> length r | _ \<Rightarrow> 0))"

text \<open>
  \<^verbatim>\<open>scipy.signal.convolve\<close> on one-dimensional arrays. \<open>conv_at a b n\<close> is entry
  \<open>n\<close> of the full convolution, the sum of \<open>a[i] * b[n - i]\<close>. Mode \<^verbatim>\<open>valid\<close> keeps
  the entries where the shorter argument overlaps the longer one completely:
  \<open>max - min + 1\<close> entries, starting at entry \<open>min - 1\<close> of the full convolution.
  For an empty argument the library raises \<^verbatim>\<open>ValueError\<close>; the model gives the empty
  array there, and the theorems about convolutions assume rows that are not empty.
\<close>

definition conv_at :: "vec \<Rightarrow> vec \<Rightarrow> nat \<Rightarrow> real" where
  "conv_at a b n =
     sum_list (map (\<lambda>i. if i \<le> n \<and> n - i < length b then a ! i * b ! (n - i) else 0)
                   [0..<length a])"

definition convolve_full :: "vec \<Rightarrow> vec \<Rightarrow> vec" where
  "convolve_full a b =
     (if a = [] \<or> b = [] then []
      else map (conv_at a b) [0..<length a + length b - 1])"

definition convolve_valid :: "vec \<Rightarrow> vec \<Rightarrow> vec" where
  "convolve_valid a b =
     (if a = [] \<or> b = [] then []
      else map (\<lambda>j. conv_at a b (j + min (length a) (length b) - 1))
               [0..<max (length a) (length b) - min (length a) (length b) + 1])"

text \<open>
  Elementwise binary operations broadcast: along every axis the two lengths are equal,
  or one of them is 1 and that entry is repeated; anything else raises
  \<^verbatim>\<open>ValueError\<close>.
\<close>

fun sequence_err :: "(error + 'a) list \<Rightarrow> error + 'a list" where
  "sequence_err [] = Inr []"
| "sequence_err (x # xs) =
     (case x of
        Inl e \<Rightarrow> Inl e
      | Inr v \<Rightarrow> (case sequence_err xs of Inl e \<Rightarrow> Inl e | Inr vs \<Rightarrow> Inr (v # vs)))"

definition broadcast ::
  "('a \<Rightarrow> 'b \<Rightarrow> error + 'c) \<Rightarrow> 'a list \<Rightarrow> 'b list \<Rightarrow> error + 'c list" where
  "broadcast f xs ys =
     (if length xs = length ys then sequence_err (map2 f xs ys)
      else if length xs = 1 then sequence_err (map (f (hd xs)) ys)
      else if length ys = 1 then sequence_err (map (\<lambda>x. f x (hd ys)) xs)
      else Inl ValueError)"

definition np_op1 :: "(real \<Rightarrow> real \<Rightarrow> real) \<Rightarrow> vec \<Rightarrow> vec \<Rightarrow> error + vec" where
  "np_op1 f = broadcast (\<lambda>x y. Inr (f x y))"

definition np_op2 :: "(real \<Rightarrow> real \<Rightarrow> real) \<Rightarrow> mat \<Rightarrow> mat \<Rightarrow> error + mat" where
  "np_op2 f = broadcast (np_op1 f)"

definition np_op3 :: "(real \<Rightarrow> real \<Rightarrow> real) \<Rightarrow> ten \<Rightarrow> ten \<Rightarrow> error + ten" where
  "np_op3 f = broadcast (np_op2 f)"

text \<open>
  \<^verbatim>\<open>a -= b\<close> writes into \<open>a\<close>: the broadcast result must have the shape of \<open>a\<close>.
\<close>

definition np_isub :: "mat \<Rightarrow> mat \<Rightarrow> error + mat" where
  "np_isub a b =
     (case np_op2 (-) a b of
        Inl e \<Rightarrow> Inl e
      | Inr r \<Rightarrow> if map length r = map length a then Inr r else Inl ValueError)"

text \<open>
  \<^verbatim>\<open>np.sum(nested, axis=1)\<close> of a nested list with four levels: numpy first
  builds the array, which needs every level to be rectangular, and then adds up the
  matrices along the second axis. The sum of no matrices is written \<open>[]\<close> here.
\<close>

definition all_eq :: "nat list \<Rightarrow> bool" where
  "all_eq ns = (ns = replicate (length ns) (hd ns))"

definition rectangular4 :: "real list list list list \<Rightarrow> bool" where
  "rectangular4 xs =
     (all_eq (map length xs) \<and> all_eq (map length (concat xs))
      \<and> all_eq (map length (concat (concat xs))))"

definition mat_add :: "mat \<Rightarrow> mat \<Rightarrow> mat" where
  "mat_add a b = map2 (map2 (+)) a b"

fun sum_mats :: "mat list \<Rightarrow> mat" where
  "sum_mats [] = []"
| "sum_mats [m] = m"
| "sum_mats (m # ms) = mat_add m (sum_mats ms)"

definition np_sum_axis1 :: "real list list list list \<Rightarrow> error + ten" where
  "np_sum_axis1 xs =
     (if xs = [] \<or> \<not> rectangular4 xs then Inl ValueError else Inr (map sum_mats xs))"

text \<open>\<^verbatim>\<open>A.sum(axis=2)\<close> and \<^verbatim>\<open>A.sum(axis=1)\<close> of a three-dimensional array.\<close>

definition sum_axis2 :: "ten \<Rightarrow> mat" where
  "sum_axis2 A = map (map sum_list) A"

fun sum_vecs :: "vec list \<Rightarrow> vec" where
  "sum_vecs [] = []"
| "sum_vecs [v] = v"
| "sum_vecs (v # vs) = map2 (+) v (sum_vecs vs)"

definition sum_axis1 :: "ten \<Rightarrow> mat" where
  "sum_axis1 A = map sum_vecs A"

text \<open>\<^verbatim>\<open>np.c_[a, b]\<close> puts two matrices with the same number of rows side by side.\<close>

definition np_c :: "mat \<Rightarrow> mat \<Rightarrow> error + mat" where
  "np_c a b = (if length a = length b then Inr (map2 (@) a b) else Inl ValueError)"

section \<open>The collaborators from \<^verbatim>\<open>utils\<close>\<close>

text \<open>
  Modelled from the spec: \<^verbatim>\<open>_get_D\<close> of \<^verbatim>\<open>alphacsc/utils.py\<close>, which is not part
  of the sources at hand. The spec: the first \<open>n_chan\<close> components of a row of \<open>uv\<close>
  are the spatial weights and the remaining ones the temporal kernel; the full atom is
  the outer product of the two slices, indexed by (atom, channel, time).
\<close>

definition get_D :: "mat \<Rightarrow> nat \<Rightarrow> ten" where
  "get_D uv n = map (\<lambda>row. map (\<lambda>u. map (\<lambda>v. u * v) (drop n row)) (take n row)) uv"

text \<open>
  Modelled from the spec: \<^verbatim>\<open>construct_X_multi\<close> of \<^verbatim>\<open>alphacsc/utils.py\<close>, which
  is not part of the sources at hand. The spec: the predicted signal, indexed by
  (trial, channel, time), assembles the atoms shifted and scaled by the code, that is,
  for every trial and channel the sum over the atoms of the full convolution of the
  atom's code with the atom's kernel on that channel; its number of time steps is
  \<open>n_times_valid + n_times_atom - 1\<close>.
\<close>

definition construct_X_multi :: "ten \<Rightarrow> ten \<Rightarrow> ten" where
  "construct_X_multi Z D =
     (case (shape3 Z, shape3 D) of
        ((n_atoms, n_trials, n_times_valid), (_, n_chan, n_times_atom)) \<Rightarrow>
          map (\<lambda>i. map (\<lambda>p. map (\<lambda>t. sum_list (map (\<lambda>k. conv_at (Z ! k ! i) (D ! k ! p) t)
                                                     [0..<n_atoms]))
                                  [0..<n_times_valid + n_times_atom - 1])
                        [0..<n_chan])
              [0..<n_trials])"

section \<open>The gradient\<close>

text \<open>
  \<^verbatim>\<open>
  def _dense_transpose_convolve(Z, residual):
      return np.sum([[[convolve(res_ip, zik[::-1], mode='valid')  # n_times_atom
                       for res_ip in res_i]                       # n_chan
                      for zik, res_i in zip(zk, residual)]        # n_trials
                     for zk in Z], axis=1)                        # n_atoms
  \<close>
\<close>

definition dense_transpose_convolve :: "ten \<Rightarrow> ten \<Rightarrow> error + ten" where
  "dense_transpose_convolve Z residual =
     np_sum_axis1
       (map (\<lambda>zk. map (\<lambda>(zik, res_i). map (\<lambda>res_ip. convolve_valid res_ip (rev zik)) res_i)
                      (zip zk residual))
            Z)"

text \<open>
  The dictionary \<^verbatim>\<open>constants\<close> with its three keys. An absent dictionary is \<open>None\<close>;
  the dictionary that \<^verbatim>\<open>_get_d_update_constants\<close> builds is not empty, hence true
  in \<^verbatim>\<open>if constants:\<close>.
\<close>

record constants =
  ZtZ :: ten
  ZtX :: ten
  n_chan :: nat

text \<open>
  \<^verbatim>\<open>
  def _gradient_d(D, X=None, Z=None, constants=None):
      if constants:
          g = np.sum([[[convolve(zzkk, dkp, mode='valid') for dkp in dk]
                      for zzkk, dk in zip(zzk, D)] for zzk in constants['ZtZ']],
                     axis=1)
          return g - constants['ZtX']
      else:
          residual = construct_X_multi(Z, D) - X
          return _dense_transpose_convolve(Z, residual)
  \<close>
  Without \<^verbatim>\<open>constants\<close>, \<open>Z\<close> and \<open>X\<close> are used as arrays. \<^verbatim>\<open>None\<close> is not
  one, and using it as one raises; the exception is written \<open>TypeError\<close> here.
  \<^verbatim>\<open>_gradient_uv\<close> never gets that far: its assertions come first.
\<close>

definition gradient_d ::
  "ten \<Rightarrow> ten option \<Rightarrow> ten option \<Rightarrow> constants option \<Rightarrow> error + ten" where
  "gradient_d D X Z cs =
     (case cs of
        Some c \<Rightarrow>
          (case np_sum_axis1
                  (map (\<lambda>zzk. map (\<lambda>(zzkk, dk). map (\<lambda>dkp. convolve_valid zzkk dkp) dk)
                                  (zip zzk D))
                       (ZtZ c)) of
             Inl e \<Rightarrow> Inl e
           | Inr g \<Rightarrow> np_op3 (-) g (ZtX c))
      | None \<Rightarrow>
          (case (Z, X) of
             (Some Z', Some X') \<Rightarrow>
               (case np_op3 (-) (construct_X_multi Z' D) X' of
                  Inl e \<Rightarrow> Inl e
                | Inr residual \<Rightarrow> dense_transpose_convolve Z' residual)
           | _ \<Rightarrow> Inl TypeError))"

text \<open>
  \<^verbatim>\<open>
  def _gradient_uv(uv, X=None, Z=None, constants=None):
      if constants:
          n_chan = constants['n_chan']
      else:
          assert X is not None
          assert Z is not None
          n_chan = X.shape[1]
      D = _get_D(uv, n_chan)
      grad_d = _gradient_d(D, X, Z, constants)
      grad_u = (grad_d * uv[:, None, n_chan:]).sum(axis=2)
      grad_v = (grad_d * uv[:, :n_chan, None]).sum(axis=1)
      return np.c_[grad_u, grad_v]
  \<close>
  \<^verbatim>\<open>uv[:, None, n_chan:]\<close> has shape (atoms, 1, rest) and \<^verbatim>\<open>uv[:, :n_chan, None]\<close>
  has shape (atoms, channels, 1).
\<close>

definition gradient_uv ::
  "mat \<Rightarrow> ten option \<Rightarrow> ten option \<Rightarrow> constants option \<Rightarrow> error + mat" where
  "gradient_uv uv X Z cs =
     (case (case cs of
              Some c \<Rightarrow> Inr (n_chan c)
            | None \<Rightarrow>
                (case X of
                   None \<Rightarrow> Inl AssertionError
                 | Some X' \<Rightarrow>
                     (case Z of
                        None \<Rightarrow> Inl AssertionError
                      | Some _ \<Rightarrow> Inr (fst (snd (shape3 X')))))) of
        Inl e \<Rightarrow> Inl e
      | Inr n \<Rightarrow>
          (case gradient_d (get_D uv n) X Z cs of
             Inl e \<Rightarrow> Inl e
           | Inr grad_d \<Rightarrow>
               (case np_op3 (*) grad_d (map (\<lambda>row. [drop n row]) uv) of
                  Inl e \<Rightarrow> Inl e
                | Inr gu \<Rightarrow>
                    (case np_op3 (*) grad_d (map (\<lambda>row. map (\<lambda>x. [x]) (take n row)) uv) of
                       Inl e \<Rightarrow> Inl e
                     | Inr gv \<Rightarrow> np_c (sum_axis2 gu) (sum_axis1 gv)))))"

section \<open>The sufficient statistics\<close>

text \<open>
  \<^verbatim>\<open>
  def _get_d_update_constants(X, Z):
      n_atoms, n_trials, n_times_valid = Z.shape
      _, n_chan, n_times = X.shape
      n_times_atom = n_times - n_times_valid + 1

      constants = {}
      constants['ZtX'] = np.sum(
          [[[convolve(zik[::-1], xip, mode='valid') for xip in xi]
            for zik, xi in zip(zk, X)] for zk in Z], axis=1)

      ZtZ = np.zeros(shape=(n_atoms, n_atoms, 2 * n_times_atom - 1))
      t0 = n_times_atom - 1
      for k0 in range(n_atoms):
          for k in range(n_atoms):
              for i in range(n_trials):
                  for t in range(n_times_atom):
                      if t == 0:
                          ZtZ[k0, k, t0] += (Z[k0, i] * Z[k, i]).sum()
                      else:
                          ZtZ[k0, k, t0 + t] += (Z[k0, i, :-t] * Z[k, i, t:]).sum()
                          ZtZ[k0, k, t0 - t] += (Z[k0, i, t:] * Z[k, i, :-t]).sum()
      constants['ZtZ'] = ZtZ
      constants['n_chan'] = n_chan
      return constants
  \<close>
  \<open>dot a b\<close> is \<^verbatim>\<open>(a * b).sum()\<close> of two rows of the same length, \<open>ZtZ_add\<close> is
  \<^verbatim>\<open>ZtZ[k0, k, j] += v\<close>, and \<open>ZtZ_body\<close> is the body of the innermost loop. The
  slice \<^verbatim>\<open>z[:-t]\<close> for \<open>t > 0\<close> is \<open>take (length z - t) z\<close>, and \<^verbatim>\<open>z[t:]\<close> is
  \<open>drop t z\<close>. \<^verbatim>\<open>np.zeros\<close> raises \<^verbatim>\<open>ValueError\<close> for a negative length, so
  where the nest of loops runs \<open>n_times_atom\<close> is at least 1 and no index leaves its axis.
\<close>

definition dot :: "vec \<Rightarrow> vec \<Rightarrow> real" where
  "dot a b = sum_list (map2 (*) a b)"

definition ZtZ_add :: "ten \<Rightarrow> nat \<Rightarrow> nat \<Rightarrow> nat \<Rightarrow> real \<Rightarrow> ten" where
  "ZtZ_add A k0 k j v = A[k0 := (A ! k0)[k := (A ! k0 ! k)[j := A ! k0 ! k ! j + v]]]"

definition ZtZ_body :: "ten \<Rightarrow> nat \<Rightarrow> nat \<Rightarrow> nat \<Rightarrow> nat \<Rightarrow> ten \<Rightarrow> nat \<Rightarrow> ten" where
  "ZtZ_body Z t0 k0 k i A t =
     (if t = 0 then ZtZ_add A k0 k t0 (dot (Z ! k0 ! i) (Z ! k ! i))
      else
        let A' = ZtZ_add A k0 k (t0 + t)
                   (dot (take (length (Z ! k0 ! i) - t) (Z ! k0 ! i)) (drop t (Z ! k ! i)))
        in ZtZ_add A' k0 k (t0 - t)
             (dot (drop t (Z ! k0 ! i)) (take (length (Z ! k ! i) - t) (Z ! k ! i))))"

definition ZtZ_fill :: "ten \<Rightarrow> nat \<Rightarrow> nat \<Rightarrow> nat \<Rightarrow> ten \<Rightarrow> ten" where
  "ZtZ_fill Z n_atoms n_trials n_times_atom A0 =
     foldl (\<lambda>A k0.
       foldl (\<lambda>A k.
         foldl (\<lambda>A i.
           foldl (ZtZ_body Z (n_times_atom - 1) k0 k i) A [0..<n_times_atom])
           A [0..<n_trials])
         A [0..<n_atoms])
       A0 [0..<n_atoms]"

definition get_d_update_constants :: "ten \<Rightarrow> ten \<Rightarrow> error + constants" where
  "get_d_update_constants X Z =
     (case (shape3 Z, shape3 X) of
        ((n_atoms, n_trials, n_times_valid), (_, n_chan', n_times)) \<Rightarrow>
          let n_times_atom = int n_times - int n_times_valid + 1 in
          (case np_sum_axis1
                  (map (\<lambda>zk. map (\<lambda>(zik, xi). map (\<lambda>xip. convolve_valid (rev zik) xip) xi)
                                 (zip zk X))
                       Z) of
             Inl e \<Rightarrow> Inl e
           | Inr ztx \<Rightarrow>
               if 2 * n_times_atom - 1 < 0 then Inl ValueError
               else
                 Inr \<lparr>ZtZ = ZtZ_fill Z n_atoms n_trials (nat n_times_atom)
                              (replicate n_atoms
                                 (replicate n_atoms
                                    (replicate (nat (2 * n_times_atom - 1)) 0))),
                      ZtX = ztx,
                      n_chan = n_chan'\<rparr>))"

section \<open>The optimisation loop\<close>

text \<open>
  \<^verbatim>\<open>
  def update_uv(X, Z, uv_hat0, debug=False, max_iter=300, step_size=1e-2,
                eps=None, verbose=0):
      n_atoms, n_trials, n_times_valid = Z.shape
      _, n_chan, n_times = X.shape
      ...
      constants = _get_d_update_constants(X, Z)

      if eps is None:
          eps = np.finfo(np.float32).eps
      uv_hat = uv_hat0.copy()
      for ii in range(max_iter):
          grad = _gradient_uv(uv_hat, constants=constants)
          uv_hat -= step_size * grad
          uv_hat = prox_uv(uv_hat)
          f = np.sum(abs(grad))
          if f <= eps:
              break
      else:
          print('update_uv did not converge')
      if verbose > 1:
          print('%d iterations' % (ii + 1))
      return uv_hat
  \<close>
  The parameter arrays live in a store: a variable holds the address of its array,
  \<^verbatim>\<open>copy\<close> and \<^verbatim>\<open>prox_uv\<close> put a new array at a fresh address, and \<^verbatim>\<open>-=\<close>
  overwrites the array at the address its left side holds. \<open>X\<close>, \<open>Z\<close> and the
  statistics are never written and are passed as values. What is printed is kept
  in \<open>stdout\<close>. The nested function \<^verbatim>\<open>objective\<close> and the parameter \<^verbatim>\<open>debug\<close>
  are never used.
\<close>

record world =
  heap :: "mat list"
  stdout :: "string list"

definition alloc :: "world \<Rightarrow> mat \<Rightarrow> world \<times> nat" where
  "alloc w m = (w\<lparr>heap := heap w @ [m]\<rparr>, length (heap w))"

definition np_copy :: "world \<Rightarrow> nat \<Rightarrow> world \<times> nat" where
  "np_copy w a = alloc w (heap w ! a)"

definition print :: "world \<Rightarrow> string \<Rightarrow> world" where
  "print w s = w\<lparr>stdout := stdout w @ [s]\<rparr>"

fun digits :: "nat \<Rightarrow> nat \<Rightarrow> string" where
  "digits 0 n = []"
| "digits (Suc fuel) n =
     (if n < 10 then [char_of (48 + n)]
      else digits fuel (n div 10) @ [char_of (48 + n mod 10)])"

definition str_of_nat :: "nat \<Rightarrow> string" where
  "str_of_nat n = digits (Suc n) n"

text \<open>
  One pass through the body of the loop, from the array at address \<open>a\<close>: the new
  address of \<^verbatim>\<open>uv_hat\<close> and the value of \<open>f\<close>, or the exception raised.
\<close>

definition update_uv_iter ::
  "constants \<Rightarrow> real \<Rightarrow> world \<Rightarrow> nat \<Rightarrow> world \<times> (error + nat \<times> real)" where
  "update_uv_iter cs step_size w a =
     (case gradient_uv (heap w ! a) None None (Some cs) of
        Inl e \<Rightarrow> (w, Inl e)
      | Inr grad \<Rightarrow>
          (case np_isub (heap w ! a) (map (map (\<lambda>g. step_size * g)) grad) of
             Inl e \<Rightarrow> (w, Inl e)
           | Inr m \<Rightarrow>
               (case alloc (w\<lparr>heap := (heap w)[a := m]\<rparr>) (prox_uv m) of
                  (w', a') \<Rightarrow> (w', Inr (a', sum_list (map abs (concat grad)))))))"

text \<open>
  The \<^verbatim>\<open>for\<close> loop over the values of \<open>ii\<close> still to come. The result holds the
  address of \<^verbatim>\<open>uv_hat\<close>, the binding of \<open>ii\<close> (\<open>None\<close> while it was never
  assigned) and whether the loop was left by \<^verbatim>\<open>break\<close>.
\<close>

fun update_uv_loop ::
  "constants \<Rightarrow> real \<Rightarrow> real \<Rightarrow> world \<Rightarrow> nat \<Rightarrow> nat option \<Rightarrow> nat list
     \<Rightarrow> world \<times> (error + nat \<times> nat option \<times> bool)" where
  "update_uv_loop cs step_size eps w a ii [] = (w, Inr (a, ii, False))"
| "update_uv_loop cs step_size eps w a ii (i # rest) =
     (case update_uv_iter cs step_size w a of
        (w', Inl e) \<Rightarrow> (w', Inl e)
      | (w', Inr (a', f)) \<Rightarrow>
          if f \<le> eps then (w', Inr (a', Some i, True))
          else update_uv_loop cs step_size eps w' a' (Some i) rest)"

text \<open>
  \<^verbatim>\<open>np.finfo(np.float32).eps\<close> is \<open>2 ^ -23\<close>. \<^verbatim>\<open>range(max_iter)\<close> is empty for
  \<open>max_iter \<le> 0\<close>. Reading \<open>ii\<close> after a loop that ran no pass raises
  \<^verbatim>\<open>UnboundLocalError\<close>, a \<^verbatim>\<open>NameError\<close>.
\<close>

definition update_uv ::
  "world \<Rightarrow> ten \<Rightarrow> ten \<Rightarrow> nat \<Rightarrow> int \<Rightarrow> real \<Rightarrow> real option \<Rightarrow> int
     \<Rightarrow> world \<times> (error + nat)" where
  "update_uv w X Z uv_hat0 max_iter step_size eps verbose =
     (case get_d_update_constants X Z of
        Inl e \<Rightarrow> (w, Inl e)
      | Inr cs \<Rightarrow>
          (case np_copy w uv_hat0 of
             (w0, uv_hat) \<Rightarrow>
               (case update_uv_loop cs step_size
                       (case eps of None \<Rightarrow> 1 / 2 ^ 23 | Some e \<Rightarrow> e)
                       w0 uv_hat None [0..<nat max_iter] of
                  (w1, Inl e) \<Rightarrow> (w1, Inl e)
                | (w1, Inr (a, ii, broke)) \<Rightarrow>
                    (let w2 = (if broke then w1 else print w1 ''update_uv did not converge'')
                     in if verbose > 1
                        then (case ii of
                                None \<Rightarrow> (w2, Inl NameError)
                              | Some i \<Rightarrow>
                                  (print w2 (str_of_nat (i + 1) @ '' iterations''), Inr a))
                        else (w2, Inr a)))))"

section \<open>The projector in binary64 arithmetic\<close>

text \<open>
  A binary64 value: a finite number, an infinity or a NaN. The two zeros are not told
  apart, and a finite value is meant to be one that binary64 can represent.
\<close>

datatype f64 = Fin real | PInf | NInf | NaN

text \<open>
  Rounding to the nearest representable value, ties to the even significand:
  \<open>ilog2 x\<close> is the exponent of a positive \<open>x\<close>, the largest \<open>e\<close> with
  \<open>2 ^ e \<le> x\<close>, computed from the number of bits of an integer; the spacing of the
  representable values near \<open>x\<close> is \<open>2 ^ (e - 52)\<close>, with \<open>e\<close> at least \<open>- 1022\<close>
  (below that the values are subnormal); a result of magnitude \<open>2 ^ 1024\<close> or more
  overflows to an infinity.
\<close>

definition pow2 :: "int \<Rightarrow> real" where
  "pow2 e = (if 0 \<le> e then 2 ^ nat e else 1 / 2 ^ nat (- e))"

function bit_length :: "int \<Rightarrow> int" where
  "bit_length n = (if n \<le> 0 then 0 else bit_length (n div 2) + 1)"
  by pat_completeness auto
termination
  by (relation "measure nat") auto

declare bit_length.simps [simp del]

definition ilog2 :: "real \<Rightarrow> int" where
  "ilog2 x = (if 1 \<le> x then bit_length \<lfloor>x\<rfloor> - 1 else - bit_length (\<lceil>1 / x\<rceil> - 1))"

definition nearest_even :: "real \<Rightarrow> int" where
  "nearest_even r =
     (if r - of_int \<lfloor>r\<rfloor> < 1 / 2 then \<lfloor>r\<rfloor>
      else if 1 / 2 < r - of_int \<lfloor>r\<rfloor> then \<lfloor>r\<rfloor> + 1
      else if even \<lfloor>r\<rfloor> then \<lfloor>r\<rfloor> else \<lfloor>r\<rfloor> + 1)"

definition round_f64 :: "real \<Rightarrow> f64" where
  "round_f64 x =
     (if x = 0 then Fin 0
      else if pow2 1024 \<le> \<bar>of_int (nearest_even (x / pow2 (max (ilog2 \<bar>x\<bar>) (- 1022) - 52)))
                              * pow2 (max (ilog2 \<bar>x\<bar>) (- 1022) - 52)\<bar>
      then (if 0 < x then PInf else NInf)
      else Fin (of_int (nearest_even (x / pow2 (max (ilog2 \<bar>x\<bar>) (- 1022) - 52)))
                * pow2 (max (ilog2 \<bar>x\<bar>) (- 1022) - 52)))"

text \<open>
  The square root, correctly rounded: the integer square root of the scaled argument,
  found bit by bit, is moved up by one when the argument lies above the midpoint.
\<close>

fun isqrt_bits :: "nat \<Rightarrow> int \<Rightarrow> int \<Rightarrow> int" where
  "isqrt_bits 0 n r = r"
| "isqrt_bits (Suc k) n r = isqrt_bits k n (if (r + 2 ^ k) ^ 2 \<le> n then r + 2 ^ k else r)"

definition isqrt :: "int \<Rightarrow> int" where
  "isqrt n = isqrt_bits (nat (bit_length n)) n 0"

definition sqrt_f64 :: "real \<Rightarrow> f64" where
  "sqrt_f64 x =
     (let u = pow2 (ilog2 x div 2 - 52);
          m = isqrt \<lfloor>x / (u * u)\<rfloor>
      in Fin (of_int (if 4 * (x / (u * u)) < of_int ((2 * m + 1) ^ 2) then m
                      else if of_int ((2 * m + 1) ^ 2) < 4 * (x / (u * u)) then m + 1
                      else if even m then m else m + 1) * u))"

text \<open>
  The arithmetic that the projector uses. Each operation on finite values is the exact
  result, rounded; the other cases follow IEEE 754. \<open>fmaximum\<close> is \<^verbatim>\<open>np.maximum\<close>,
  which returns NaN when an argument is NaN.
\<close>

fun sign_f64 :: "f64 \<Rightarrow> int" where
  "sign_f64 (Fin x) = (if 0 < x then 1 else if x < 0 then - 1 else 0)"
| "sign_f64 PInf = 1"
| "sign_f64 NInf = - 1"
| "sign_f64 NaN = 0"

fun fmul :: "f64 \<Rightarrow> f64 \<Rightarrow> f64" where
  "fmul (Fin x) (Fin y) = round_f64 (x * y)"
| "fmul NaN b = NaN"
| "fmul a NaN = NaN"
| "fmul a b =
     (if sign_f64 a * sign_f64 b = 0 then NaN
      else if 0 < sign_f64 a * sign_f64 b then PInf else NInf)"

fun fadd :: "f64 \<Rightarrow> f64 \<Rightarrow> f64" where
  "fadd (Fin x) (Fin y) = round_f64 (x + y)"
| "fadd NaN b = NaN"
| "fadd a NaN = NaN"
| "fadd PInf NInf = NaN"
| "fadd NInf PInf = NaN"
| "fadd (Fin x) b = b"
| "fadd a b = a"

fun fdiv :: "f64 \<Rightarrow> f64 \<Rightarrow> f64" where
  "fdiv (Fin x) (Fin y) =
     (if y = 0 then (if x = 0 then NaN else if 0 < x then PInf else NInf)
      else round_f64 (x / y))"
| "fdiv NaN b = NaN"
| "fdiv a NaN = NaN"
| "fdiv (Fin x) b = Fin 0"
| "fdiv a (Fin y) = (if 0 \<le> sign_f64 a * (if y < 0 then - 1 else 1) then PInf else NInf)"
| "fdiv a b = NaN"

fun fsqrt :: "f64 \<Rightarrow> f64" where
  "fsqrt (Fin x) = (if x < 0 then NaN else if x = 0 then Fin 0 else sqrt_f64 x)"
| "fsqrt PInf = PInf"
| "fsqrt NInf = NaN"
| "fsqrt NaN = NaN"

fun fmaximum :: "f64 \<Rightarrow> f64 \<Rightarrow> f64" where
  "fmaximum NaN b = NaN"
| "fmaximum a NaN = NaN"
| "fmaximum PInf b = PInf"
| "fmaximum a PInf = PInf"
| "fmaximum NInf b = b"
| "fmaximum a NInf = a"
| "fmaximum (Fin x) (Fin y) = Fin (max x y)"

text \<open>
  \<^verbatim>\<open>np.linalg.norm(uv, axis=1)\<close> computes \<^verbatim>\<open>sqrt(add.reduce(x * x, axis=1))\<close>. The sum
  starts from the first square and adds the sum of the others, taken from left to
  right; numpy adds long rows in blocks, in another order. \<open>prox_uv_f64\<close> is
  \<^verbatim>\<open>prox_uv\<close> of the source, line by line, in this arithmetic.
\<close>

fun sum_f64 :: "f64 list \<Rightarrow> f64" where
  "sum_f64 [] = Fin 0"
| "sum_f64 (x # xs) = fadd x (foldl fadd (Fin 0) xs)"

definition norm2_f64 :: "f64 list \<Rightarrow> f64" where
  "norm2_f64 row = fsqrt (sum_f64 (map (\<lambda>x. fmul x x) row))"

definition norm_uv_f64 :: "f64 list list \<Rightarrow> f64 list list" where
  "norm_uv_f64 uv = map (\<lambda>n. [fmaximum (Fin 1) n]) (map norm2_f64 uv)"

definition prox_uv_f64 :: "f64 list list \<Rightarrow> f64 list list" where
  "prox_uv_f64 uv = map2 (\<lambda>row d. map (\<lambda>x. fdiv x (hd d)) row) uv (norm_uv_f64 uv)"

section \<open>Shapes and the entries of the statistics\<close>

text \<open>
  \<open>has_shape3 A a b c\<close>: the nested list \<open>A\<close> stands for an array of shape
  \<open>(a, b, c)\<close>.
\<close>

definition has_shape3 :: "ten \<Rightarrow> nat \<Rightarrow> nat \<Rightarrow> nat \<Rightarrow> bool" where
  "has_shape3 A a b c =
     (length A = a \<and> list_all (\<lambda>m. length m = b \<and> list_all (\<lambda>r. length r = c) m) A)"

text \<open>
  The shifted dot product of two code rows that one trial adds to entry \<open>j\<close> of a row
  of \<^verbatim>\<open>ZtZ\<close>, where \<open>t0\<close> is the entry of lag 0: the three assignments of the
  innermost loop, told apart by the entry they write.
\<close>

definition lag_dot :: "vec \<Rightarrow> vec \<Rightarrow> nat \<Rightarrow> nat \<Rightarrow> real" where
  "lag_dot a b t0 j =
     (if j = t0 then dot a b
      else if t0 < j then dot (take (length a - (j - t0)) a) (drop (j - t0) b)
      else dot (drop (t0 - j) a) (take (length b - (t0 - j)) b))"

section \<open>Properties of the projector\<close>

lemma prox_uv_rows:
  "prox_uv uv = map (\<lambda>row. map (\<lambda>x. x / max 1 (norm2 row)) row) uv"
  by (induction uv) (simp_all add: prox_uv_def norm_uv_def norm_axis1_def)

lemma length_prox_uv: "length (prox_uv uv) = length uv"
  by (simp add: prox_uv_rows)

lemma sum_squares_nonneg: "0 \<le> sum_list (map (\<lambda>x. x * x) (row :: vec))"
  by (induction row) simp_all

lemma norm2_nonneg: "0 \<le> norm2 row"
  by (simp add: norm2_def sum_squares_nonneg)






lemma prox_uv_nth:
  "i < length uv \<Longrightarrow> prox_uv uv ! i = map (\<lambda>x. x / max 1 (norm2 (uv ! i))) (uv ! i)"
  by (simp add: prox_uv_rows)

lemma norm_uv_nth: "i < length uv \<Longrightarrow> norm_uv uv ! i = [max 1 (norm2 (uv ! i))]"
  by (simp add: norm_uv_def norm_axis1_def)




section \<open>Properties of the optimisation loop\<close>


lemma update_uv_iter_cases:
  obtains (err) e where "update_uv_iter cs step w a = (w, Inl e)"
  | (ok) grad m where
      "gradient_uv (heap w ! a) None None (Some cs) = Inr grad"
      "np_isub (heap w ! a) (map (map (\<lambda>g. step * g)) grad) = Inr m"
      "update_uv_iter cs step w a =
         (w\<lparr>heap := (heap w)[a := m] @ [prox_uv m]\<rparr>,
          Inr (length (heap w), sum_list (map abs (concat grad))))"
proof (cases "gradient_uv (heap w ! a) None None (Some cs)")
  case (Inl e)
  then have "update_uv_iter cs step w a = (w, Inl e)"
    by (simp add: update_uv_iter_def)
  then show ?thesis by (rule err)
next
  case g: (Inr grad)
  show ?thesis
  proof (cases "np_isub (heap w ! a) (map (map (\<lambda>g. step * g)) grad)")
    case (Inl e)
    with g have "update_uv_iter cs step w a = (w, Inl e)"
      by (simp add: update_uv_iter_def)
    then show ?thesis by (rule err)
  next
    case (Inr m)
    with g show ?thesis
      by (intro ok [of grad m]) (simp_all add: update_uv_iter_def alloc_def)
  qed
qed

lemma update_uv_iter_ok:
  assumes "gradient_uv (heap w ! a) None None (Some cs) = Inr grad"
    and "np_isub (heap w ! a) (map (map (\<lambda>g. step * g)) grad) = Inr m"
  shows "update_uv_iter cs step w a =
         (w\<lparr>heap := (heap w)[a := m] @ [prox_uv m]\<rparr>,
          Inr (length (heap w), sum_list (map abs (concat grad))))"
  using assms by (simp add: update_uv_iter_def alloc_def)

lemma update_uv_iter_frame:
  assumes "update_uv_iter cs step w a = (w', r)" and "n \<le> a" and "n \<le> length (heap w)"
  shows "take n (heap w') = take n (heap w) \<and> length (heap w) \<le> length (heap w')
     \<and> stdout w' = stdout w
     \<and> (\<forall>a' f. r = Inr (a', f) \<longrightarrow> length (heap w) \<le> a' \<and> a' < length (heap w'))"
  using assms by (cases rule: update_uv_iter_cases [of cs step w a]) auto

lemma update_uv_loop_frame:
  assumes "update_uv_loop cs step eps w a ii xs = (w', r)"
    and "n \<le> a" and "n \<le> length (heap w)" and "a < length (heap w)"
  shows "take n (heap w') = take n (heap w) \<and> length (heap w) \<le> length (heap w')
     \<and> stdout w' = stdout w
     \<and> (\<forall>a' ii' b. r = Inr (a', ii', b) \<longrightarrow> n \<le> a' \<and> a' < length (heap w'))"
  using assms
proof (induction xs arbitrary: w a ii)
  case Nil
  then show ?case by auto
next
  case (Cons i rest)
  obtain w1 r1 where it: "update_uv_iter cs step w a = (w1, r1)"
    by (cases "update_uv_iter cs step w a")
  note fr = update_uv_iter_frame [OF it Cons.prems(2) Cons.prems(3)]
  show ?case
  proof (cases r1)
    case (Inl e)
    with it Cons.prems(1) have "w' = w1" "r = Inl e" by auto
    with fr show ?thesis by simp
  next
    case (Inr p)
    obtain a1 f where p: "p = (a1, f)" by (cases p)
    from fr Inr p have a1: "length (heap w) \<le> a1" "a1 < length (heap w1)" by auto
    show ?thesis
    proof (cases "f \<le> eps")
      case True
      with it Inr p Cons.prems(1) have "w' = w1" "r = Inr (a1, Some i, True)" by auto
      with fr a1 Cons.prems(3) show ?thesis by auto
    next
      case False
      with it Inr p Cons.prems(1)
      have rec: "update_uv_loop cs step eps w1 a1 (Some i) rest = (w', r)" by auto
      have "n \<le> a1" "n \<le> length (heap w1)"
        using a1 Cons.prems(3) by auto
      from Cons.IH [OF rec this a1(2)] fr show ?thesis by auto
    qed
  qed
qed

lemma update_uv_frame:
  assumes "uv_hat0 < length (heap w)"
    and "update_uv w X Z uv_hat0 max_iter step_size eps verbose = (w', r)"
  shows "heap w' ! uv_hat0 = heap w ! uv_hat0
     \<and> take (length (heap w)) (heap w') = heap w
     \<and> (\<forall>a. r = Inr a \<longrightarrow> a \<noteq> uv_hat0 \<and> length (heap w) \<le> a \<and> a < length (heap w'))"
proof -
  have main: "take (length (heap w)) (heap w') = heap w
     \<and> (\<forall>a. r = Inr a \<longrightarrow> length (heap w) \<le> a \<and> a < length (heap w'))"
  proof (cases "get_d_update_constants X Z")
    case (Inl e)
    with assms(2) show ?thesis by (auto simp: update_uv_def)
  next
    case (Inr cs)
    define w0 where "w0 = w\<lparr>heap := heap w @ [heap w ! uv_hat0]\<rparr>"
    define e' where "e' = (case eps of None \<Rightarrow> 1 / 2 ^ 23 | Some e \<Rightarrow> e)"
    obtain w1 r1 where loop:
      "update_uv_loop cs step_size e' w0 (length (heap w)) None [0..<nat max_iter] = (w1, r1)"
      by (cases "update_uv_loop cs step_size e' w0 (length (heap w)) None [0..<nat max_iter]")
    have "take (length (heap w)) (heap w1) = take (length (heap w)) (heap w0)
       \<and> length (heap w0) \<le> length (heap w1) \<and> stdout w1 = stdout w0
       \<and> (\<forall>a' ii' b. r1 = Inr (a', ii', b) \<longrightarrow> length (heap w) \<le> a' \<and> a' < length (heap w1))"
      by (rule update_uv_loop_frame [OF loop]) (simp_all add: w0_def)
    then have fr: "take (length (heap w)) (heap w1) = heap w"
      "\<forall>a' ii' b. r1 = Inr (a', ii', b) \<longrightarrow> length (heap w) \<le> a' \<and> a' < length (heap w1)"
      by (simp_all add: w0_def)
    from assms(2) Inr loop
    have "heap w' = heap w1 \<and> (\<forall>a. r = Inr a \<longrightarrow> (\<exists>ii' b. r1 = Inr (a, ii', b)))"
      by (auto simp: update_uv_def np_copy_def alloc_def w0_def e'_def print_def Let_def
               split: sum.splits option.splits if_splits)
    with fr show ?thesis by auto
  qed
  then have "take (length (heap w)) (heap w') ! uv_hat0 = heap w ! uv_hat0"
    by simp
  then have "heap w' ! uv_hat0 = heap w ! uv_hat0"
    using assms(1) by simp
  with main assms(1) show ?thesis by auto
qed

text \<open>
  C6: whatever the inputs and the iteration budget, and whether the call returns or
  raises, the array at the caller's address \<open>uv_hat0\<close>, like every array that existed
  before the call, holds the same values afterwards; the address returned is that of
  a new array.
\<close>

theorem update_uv_leaves_uv_hat0:
  assumes "uv_hat0 < length (heap w)"
  shows "heap (fst (update_uv w X Z uv_hat0 max_iter step_size eps verbose)) ! uv_hat0
           = heap w ! uv_hat0
     \<and> take (length (heap w))
          (heap (fst (update_uv w X Z uv_hat0 max_iter step_size eps verbose))) = heap w
     \<and> (\<forall>a. snd (update_uv w X Z uv_hat0 max_iter step_size eps verbose) = Inr a
            \<longrightarrow> a \<noteq> uv_hat0 \<and> length (heap w) \<le> a
              \<and> a < length (heap (fst (update_uv w X Z uv_hat0 max_iter step_size eps verbose))))"
  by (rule update_uv_frame [OF assms]) simp

lemma constants_ex0: "get_d_update_constants [[[1,0,2]]] [[[1,2]]] = Inr \<lparr>ZtZ = [[[2, 5, 2]]], ZtX = [[[1, 4]]], n_chan = 1\<rparr>"
  by code_simp

theorem update_uv_leaves_uv_hat0_witness:
  "heap (fst (update_uv \<lparr>heap = [[[1, 1, 0]]], stdout = []\<rparr> [[[1, 0, 2]]] [[[1, 2]]] 0 3 (1/4) None 0)) ! 0
     = [[1, 1, 0]]"
  using update_uv_leaves_uv_hat0
          [of 0 "\<lparr>heap = [[[1, 1, 0]]], stdout = []\<rparr>" "[[[1, 0, 2]]]" "[[[1, 2]]]" 3 "1/4" None 0]
  by simp

lemma update_uv_loop_break:
  assumes "gradient_uv (heap w ! a) None None (Some cs) = Inr grad"
    and "np_isub (heap w ! a) (map (map (\<lambda>g. step * g)) grad) = Inr m"
    and "sum_list (map abs (concat grad)) \<le> tol"
  shows "update_uv_loop cs step tol w a ii (i # rest) =
           (w\<lparr>heap := (heap w)[a := m] @ [prox_uv m]\<rparr>, Inr (length (heap w), Some i, True))"
  using assms by (simp add: update_uv_iter_ok)

lemma np_op1_same:
  "length a = length b \<Longrightarrow> np_op1 f a b = Inr (map2 f a b)"
proof (induction a arbitrary: b)
  case Nil
  then show ?case by (simp add: np_op1_def broadcast_def)
next
  case (Cons x a)
  then obtain y b' where b: "b = y # b'" by (cases b) auto
  with Cons.prems have "length a = length b'" by simp
  from Cons.IH [OF this] b Cons.prems show ?case
    by (simp add: np_op1_def broadcast_def)
qed

lemma np_op2_same:
  "map length a = map length b \<Longrightarrow> np_op2 f a b = Inr (map2 (map2 f) a b)"
proof (induction a arbitrary: b)
  case Nil
  then show ?case by (simp add: np_op2_def broadcast_def)
next
  case (Cons x a)
  then obtain y b' where b: "b = y # b'" by (cases b) auto
  with Cons.prems have l: "map length a = map length b'" "length x = length y" by simp_all
  then have "length a = length b'"
    by (metis length_map)
  with Cons.IH [OF l(1)] b l(2) show ?case
    by (simp add: np_op2_def broadcast_def np_op1_same)
qed

lemma np_isub_same:
  assumes "map length b = map length a"
  shows "np_isub a b = Inr (map2 (map2 (-)) a b)"
proof -
  have eq: "np_op2 (-) a b = Inr (map2 (map2 (-)) a b)"
    using assms by (simp add: np_op2_same)
  have "length a = length b"
    using assms by (metis length_map)
  then have "map length (map2 (map2 (-)) a b) = map length a"
    using assms
  proof (induction a b rule: list_induct2)
    case Nil
    then show ?case by simp
  next
    case (Cons x xs y ys)
    then show ?case by simp
  qed
  with eq show ?thesis
    by (simp add: np_isub_def)
qed

text \<open>
  C10: the test \<^verbatim>\<open>f <= eps\<close> comes after the step and the projection. When the
  gradient at the current parameters has a sum of absolute values of at most the
  tolerance, the pass leaves the loop with the projection of the stepped parameters,
  and with at least one pass allowed a call that starts there returns that array.
\<close>

theorem update_uv_returns_post_step:
  assumes "gradient_uv (heap w ! a) None None (Some cs) = Inr grad"
    and "np_isub (heap w ! a) (map (map (\<lambda>g. step_size * g)) grad) = Inr m"
    and "sum_list (map abs (concat grad)) \<le> tol"
  shows "(\<exists>w'. update_uv_loop cs step_size tol w a ii (i # rest)
                 = (w', Inr (length (heap w), Some i, True))
               \<and> heap w' ! length (heap w) = prox_uv m)
     \<and> (get_d_update_constants X Z = Inr cs \<and> a < length (heap w) \<and> 0 < max_iter
          \<and> tol = (case eps of None \<Rightarrow> 1 / 2 ^ 23 | Some e \<Rightarrow> e)
        \<longrightarrow> (\<exists>w' r. update_uv w X Z a max_iter step_size eps verbose = (w', Inr r)
                    \<and> heap w' ! r = prox_uv m))
     \<and> (map length grad = map length (heap w ! a)
        \<longrightarrow> m = map2 (map2 (\<lambda>x g. x - step_size * g)) (heap w ! a) grad)"
proof (intro conjI impI)
  show "\<exists>w'. update_uv_loop cs step_size tol w a ii (i # rest)
                 = (w', Inr (length (heap w), Some i, True))
               \<and> heap w' ! length (heap w) = prox_uv m"
    unfolding update_uv_loop_break [OF assms] by (simp add: nth_append)
next
  assume h: "get_d_update_constants X Z = Inr cs \<and> a < length (heap w) \<and> 0 < max_iter
          \<and> tol = (case eps of None \<Rightarrow> 1 / 2 ^ 23 | Some e \<Rightarrow> e)"
  define w0 where "w0 = w\<lparr>heap := heap w @ [heap w ! a]\<rparr>"
  from h obtain n where n: "[0..<nat max_iter] = 0 # n"
    by (cases "nat max_iter") (auto simp: upt_rec)
  have r: "heap w0 ! length (heap w) = heap w ! a"
    by (simp add: w0_def)
  have "update_uv_loop cs step_size tol w0 (length (heap w)) None (0 # n) =
           (w0\<lparr>heap := (heap w0)[length (heap w) := m] @ [prox_uv m]\<rparr>,
            Inr (length (heap w0), Some 0, True))"
    by (rule update_uv_loop_break [OF _ _ assms(3)]) (simp_all add: r assms)
  then have "update_uv_loop cs step_size tol w0 (length (heap w)) None [0..<nat max_iter] =
           (w0\<lparr>heap := (heap w0)[length (heap w) := m] @ [prox_uv m]\<rparr>,
            Inr (length (heap w0), Some 0, True))"
    by (simp only: n)
  with h show "\<exists>w' r. update_uv w X Z a max_iter step_size eps verbose = (w', Inr r)
                    \<and> heap w' ! r = prox_uv m"
    by (auto simp: update_uv_def np_copy_def alloc_def w0_def print_def nth_append Let_def
             simp del: update_uv_loop.simps)
next
  assume s: "map length grad = map length (heap w ! a)"
  have "map length (map (map (\<lambda>g. step_size * g)) grad) = map length (heap w ! a)"
    using s by (simp add: comp_def)
  then have "np_isub (heap w ! a) (map (map (\<lambda>g. step_size * g)) grad)
     = Inr (map2 (map2 (-)) (heap w ! a) (map (map (\<lambda>g. step_size * g)) grad))"
    by (rule np_isub_same)
  with assms(2) have "m = map2 (map2 (-)) (heap w ! a) (map (map (\<lambda>g. step_size * g)) grad)"
    by simp
  also have "\<dots> = map2 (map2 (\<lambda>x g. x - step_size * g)) (heap w ! a) grad"
    by (simp add: zip_map2 comp_def case_prod_unfold)
  finally show "m = map2 (map2 (\<lambda>x g. x - step_size * g)) (heap w ! a) grad" .
qed





lemma constants_ex: "get_d_update_constants [[[1,2,0]]] [[[1,2]]] = Inr \<lparr>ZtZ = [[[2, 5, 2]]], ZtX = [[[5, 2]]], n_chan = 1\<rparr>"
  by code_simp

lemma gradient_ex: "gradient_uv [[1,1,0]] None None (Some \<lparr>ZtZ = [[[2, 5, 2]]], ZtX = [[[5, 2]]], n_chan = 1\<rparr>)
  = Inr [[0, 0, 0]]"
  by code_simp

lemma isub_ex: "np_isub [[1,1,0]] (map (map (\<lambda>g. (1/4) * g)) [[0, 0, 0]]) = Inr [[1, 1, 0]]"
  by code_simp




theorem update_uv_returns_post_step_witness:
  "\<exists>w' r. update_uv \<lparr>heap = [[[1, 1, 0]]], stdout = []\<rparr> [[[1, 2, 0]]] [[[1, 2]]] 0 5 (1/4) None 0
             = (w', Inr r)
          \<and> heap w' ! r = prox_uv [[1, 1, 0]]"
proof -
  let ?w = "\<lparr>heap = [[[1, 1, 0]]], stdout = []\<rparr>"
  let ?cs = "\<lparr>ZtZ = [[[2, 5, 2]]], ZtX = [[[5, 2]]], n_chan = 1\<rparr>"
  have g: "gradient_uv (heap ?w ! 0) None None (Some ?cs) = Inr [[0, 0, 0]]"
    using gradient_ex by simp
  have s: "np_isub (heap ?w ! 0) (map (map (\<lambda>g. (1/4) * g)) [[0, 0, 0]]) = Inr [[1, 1, 0]]"
    using isub_ex by simp
  have f: "sum_list (map abs (concat [[0, 0, 0 :: real]])) \<le> 1 / 2 ^ 23"
    by simp
  have h: "get_d_update_constants [[[1, 2, 0]]] [[[1, 2]]] = Inr ?cs \<and> 0 < length (heap ?w)
     \<and> (0::int) < 5 \<and> (1 / 2 ^ 23 :: real) = (case None of None \<Rightarrow> 1 / 2 ^ 23 | Some e \<Rightarrow> e)"
    using constants_ex by simp
  from update_uv_returns_post_step [OF g s f, of None 0 "[]" "[[[1, 2, 0]]]" "[[[1, 2]]]" 5 None 0] h
  show ?thesis
    by blast
qed

text \<open>
  C7: with a budget of no passes and \<^verbatim>\<open>verbose=2\<close> the call prints the warning
  and then raises \<^verbatim>\<open>NameError\<close> on \<open>ii\<close> instead of returning the parameters.
\<close>

theorem update_uv_empty_budget_verbose:
  "update_uv \<lparr>heap = [[[1, 1, 0]]], stdout = []\<rparr> [[[1, 0, 2]]] [[[1, 2]]] 0 0 (1/4) None 2
   = (\<lparr>heap = [[[1, 1, 0]], [[1, 1, 0]]], stdout = [''update_uv did not converge'']\<rparr>,
      Inl NameError)"
  using constants_ex0 by (simp add: update_uv_def np_copy_def alloc_def print_def)

text \<open>
  Apart from that case, a loop that runs out of passes has run each of them, the warning is
  printed and the last parameters are returned.
\<close>


lemma update_uv_loop_exhausted:
  assumes "update_uv_loop cs step eps w a ii xs = (w', Inr (a', ii', False))"
  shows "ii' = (if xs = [] then ii else Some (last xs))
     \<and> length (heap w') = length (heap w) + length xs \<and> stdout w' = stdout w"
  using assms
proof (induction xs arbitrary: w a ii)
  case Nil
  then show ?case by auto
next
  case (Cons i rest)
  show ?case
  proof (cases rule: update_uv_iter_cases [of cs step w a])
    case (err e)
    with Cons.prems show ?thesis by simp
  next
    case (ok grad m)
    let ?w1 = "w\<lparr>heap := (heap w)[a := m] @ [prox_uv m]\<rparr>"
    from ok(3) Cons.prems
    have rec: "update_uv_loop cs step eps ?w1 (length (heap w)) (Some i) rest
                 = (w', Inr (a', ii', False))"
      by (auto split: if_splits)
    from Cons.IH [OF rec] show ?thesis
      by auto
  qed
qed

lemma update_uv_budget_exhausted:
  assumes "get_d_update_constants X Z = Inr cs"
    and "update_uv_loop cs step_size (case eps of None \<Rightarrow> 1 / 2 ^ 23 | Some e \<Rightarrow> e)
           (fst (np_copy w uv_hat0)) (snd (np_copy w uv_hat0)) None [0..<nat max_iter]
         = (w1, Inr (a, ii, False))"
    and "0 < max_iter \<or> verbose \<le> 1"
  shows "\<exists>w'. update_uv w X Z uv_hat0 max_iter step_size eps verbose = (w', Inr a)
     \<and> heap w' = heap w1 \<and> length (heap w1) = length (heap w) + 1 + nat max_iter
     \<and> ''update_uv did not converge'' \<in> set (stdout w')"
proof -
  from update_uv_loop_exhausted [OF assms(2)]
  have ii: "ii = (if nat max_iter = 0 then None else Some (nat max_iter - 1))"
    and len: "length (heap w1) = length (heap w) + 1 + nat max_iter"
    by (auto simp: np_copy_def alloc_def last_upt)
  from assms(3) ii have "1 < verbose \<longrightarrow> ii \<noteq> None"
    by auto
  with assms(1,2) len show ?thesis
    by (cases "np_copy w uv_hat0")
       (auto simp: update_uv_def print_def Let_def simp del: update_uv_loop.simps)
qed

section \<open>Properties of the statistics\<close>


lemma has_shape3_iff:
  "has_shape3 A a b c \<longleftrightarrow>
     length A = a \<and> (\<forall>i<a. length (A ! i) = b \<and> (\<forall>j<b. length (A ! i ! j) = c))"
  by (auto simp: has_shape3_def list_all_length)

lemma nth_update_if: "xs[i := x] ! j = (if i = j \<and> i < length xs then x else xs ! j)"
  by (cases "i < length xs") (auto simp: list_update_beyond)

lemma has_shape3_replicate: "has_shape3 (replicate a (replicate b (replicate c x))) a b c"
  by (simp add: has_shape3_iff)

lemma ZtZ_add_shape:
  "has_shape3 A K K' M \<Longrightarrow> has_shape3 (ZtZ_add A k0 k j v) K K' M"
  by (auto simp: has_shape3_iff ZtZ_add_def nth_update_if)

lemma ZtZ_add_nth:
  assumes "has_shape3 A K K' M" "k0 < K" "k < K'" "j < M" "a < K" "b < K'" "c < M"
  shows "ZtZ_add A k0 k j v ! a ! b ! c
           = A ! a ! b ! c + (if a = k0 \<and> b = k \<and> c = j then v else 0)"
  using assms by (auto simp: has_shape3_iff ZtZ_add_def nth_update_if)

lemma foldl_upt_additive:
  fixes g :: "'s \<Rightarrow> 'x \<Rightarrow> real"
  assumes "I A"
    and "\<And>j B. j < n \<Longrightarrow> I B \<Longrightarrow> I (F B j) \<and> (\<forall>x\<in>S. g (F B j) x = g B x + d j x)"
  shows "I (foldl F A [0..<n]) \<and> (\<forall>x\<in>S. g (foldl F A [0..<n]) x = g A x + (\<Sum>j<n. d j x))"
  using assms(2)
proof (induction n)
  case 0
  show ?case using assms(1) by simp
next
  case (Suc n)
  have ih: "I (foldl F A [0..<n]) \<and> (\<forall>x\<in>S. g (foldl F A [0..<n]) x = g A x + (\<Sum>j<n. d j x))"
    by (rule Suc.IH) (simp add: Suc.prems)
  have step: "I (F (foldl F A [0..<n]) n)
      \<and> (\<forall>x\<in>S. g (F (foldl F A [0..<n]) n) x = g (foldl F A [0..<n]) x + d n x)"
    by (rule Suc.prems) (simp_all add: ih)
  show ?case
    using ih step by simp
qed

lemma lag_dot_sum:
  assumes "c < 2 * t0 + 1"
  shows "(\<Sum>t<Suc t0. if t = 0 then (if c = t0 then dot a b else 0)
                      else (if c = t0 + t then dot (take (length a - t) a) (drop t b) else 0)
                         + (if c = t0 - t then dot (drop t a) (take (length b - t) b) else 0))
         = lag_dot a b t0 c"
    (is "sum ?e _ = _")
proof -
  consider (eq) "c = t0" | (gt) "t0 < c" | (lt) "c < t0"
    by linarith
  then show ?thesis
  proof cases
    case eq
    have "?e t = (if t = 0 then dot a b else 0)" if "t \<in> {..<Suc t0}" for t
      using that eq by auto
    then have "sum ?e {..<Suc t0} = (\<Sum>t<Suc t0. if t = 0 then dot a b else 0)"
      by (rule sum.cong [OF refl])
    also have "\<dots> = dot a b"
      by (simp add: sum.delta' del: sum.lessThan_Suc)
    finally show ?thesis
      using eq by (simp add: lag_dot_def)
  next
    case gt
    have "?e t = (if t = c - t0 then dot (take (length a - (c - t0)) a) (drop (c - t0) b) else 0)"
      if "t \<in> {..<Suc t0}" for t
      using that gt by auto
    then have "sum ?e {..<Suc t0}
       = (\<Sum>t<Suc t0. if t = c - t0 then dot (take (length a - (c - t0)) a) (drop (c - t0) b) else 0)"
      by (rule sum.cong [OF refl])
    also have "\<dots> = dot (take (length a - (c - t0)) a) (drop (c - t0) b)"
    proof -
      have "c - t0 < Suc t0"
        using gt assms by linarith
      then show ?thesis
        by (simp add: sum.delta' del: sum.lessThan_Suc)
    qed
    finally show ?thesis
      using gt by (simp add: lag_dot_def)
  next
    case lt
    have "?e t = (if t = t0 - c then dot (drop (t0 - c) a) (take (length b - (t0 - c)) b) else 0)"
      if "t \<in> {..<Suc t0}" for t
      using that lt by auto
    then have "sum ?e {..<Suc t0}
       = (\<Sum>t<Suc t0. if t = t0 - c then dot (drop (t0 - c) a) (take (length b - (t0 - c)) b) else 0)"
      by (rule sum.cong [OF refl])
    also have "\<dots> = dot (drop (t0 - c) a) (take (length b - (t0 - c)) b)"
    proof -
      have "t0 - c < Suc t0"
        by linarith
      then show ?thesis
        by (simp add: sum.delta' del: sum.lessThan_Suc)
    qed
    finally show ?thesis
      using lt by (simp add: lag_dot_def)
  qed
qed

lemma ZtZ_body_step:
  assumes "has_shape3 A K K (2 * t0 + 1)" "k0 < K" "k < K" "t \<le> t0"
  shows "has_shape3 (ZtZ_body Z t0 k0 k i A t) K K (2 * t0 + 1)"
    and "a < K \<Longrightarrow> b < K \<Longrightarrow> c < 2 * t0 + 1 \<Longrightarrow>
         ZtZ_body Z t0 k0 k i A t ! a ! b ! c = A ! a ! b ! c +
           (if a = k0 \<and> b = k then
              (if t = 0 then (if c = t0 then dot (Z ! k0 ! i) (Z ! k ! i) else 0)
               else (if c = t0 + t
                     then dot (take (length (Z ! k0 ! i) - t) (Z ! k0 ! i)) (drop t (Z ! k ! i))
                     else 0)
                  + (if c = t0 - t
                     then dot (drop t (Z ! k0 ! i)) (take (length (Z ! k ! i) - t) (Z ! k ! i))
                     else 0))
            else 0)"
proof -
  show "has_shape3 (ZtZ_body Z t0 k0 k i A t) K K (2 * t0 + 1)"
    using assms(1) by (simp add: ZtZ_body_def Let_def ZtZ_add_shape)
  assume r: "a < K" "b < K" "c < 2 * t0 + 1"
  show "ZtZ_body Z t0 k0 k i A t ! a ! b ! c = A ! a ! b ! c +
           (if a = k0 \<and> b = k then
              (if t = 0 then (if c = t0 then dot (Z ! k0 ! i) (Z ! k ! i) else 0)
               else (if c = t0 + t
                     then dot (take (length (Z ! k0 ! i) - t) (Z ! k0 ! i)) (drop t (Z ! k ! i))
                     else 0)
                  + (if c = t0 - t
                     then dot (drop t (Z ! k0 ! i)) (take (length (Z ! k ! i) - t) (Z ! k ! i))
                     else 0))
            else 0)"
  proof (cases "t = 0")
    case True
    then show ?thesis
      using assms r by (simp add: ZtZ_body_def ZtZ_add_nth [where K = K and K' = K and M = "2 * t0 + 1"])
  next
    case False
    let ?A' = "ZtZ_add A k0 k (t0 + t)
                 (dot (take (length (Z ! k0 ! i) - t) (Z ! k0 ! i)) (drop t (Z ! k ! i)))"
    have s: "has_shape3 ?A' K K (2 * t0 + 1)"
      using assms(1) by (rule ZtZ_add_shape)
    have j1: "t0 + t < 2 * t0 + 1" and j2: "t0 - t < 2 * t0 + 1"
      using assms(4) by auto
    show ?thesis
      using False
      by (simp add: ZtZ_body_def Let_def
            ZtZ_add_nth [OF s assms(2,3) j2 r]
            ZtZ_add_nth [OF assms(1,2,3) j1 r])
  qed
qed

lemma ZtZ_lags_loop:
  assumes "has_shape3 B K K (2 * t0 + 1)" "k0 < K" "k < K"
  shows "has_shape3 (foldl (ZtZ_body Z t0 k0 k i) B [0..<Suc t0]) K K (2 * t0 + 1)
     \<and> (\<forall>x\<in>{x. fst x < K \<and> fst (snd x) < K \<and> snd (snd x) < 2 * t0 + 1}.
          foldl (ZtZ_body Z t0 k0 k i) B [0..<Suc t0] ! fst x ! fst (snd x) ! snd (snd x)
          = B ! fst x ! fst (snd x) ! snd (snd x)
            + (if fst x = k0 \<and> fst (snd x) = k
               then lag_dot (Z ! k0 ! i) (Z ! k ! i) t0 (snd (snd x)) else 0))"
proof -
  let ?S = "{x :: nat \<times> nat \<times> nat. fst x < K \<and> fst (snd x) < K \<and> snd (snd x) < 2 * t0 + 1}"
  let ?e = "\<lambda>t c. if t = 0 then (if c = t0 then dot (Z ! k0 ! i) (Z ! k ! i) else 0)
               else (if c = t0 + t
                     then dot (take (length (Z ! k0 ! i) - t) (Z ! k0 ! i)) (drop t (Z ! k ! i))
                     else 0)
                  + (if c = t0 - t
                     then dot (drop t (Z ! k0 ! i)) (take (length (Z ! k ! i) - t) (Z ! k ! i))
                     else 0)"
  let ?d = "\<lambda>t (x :: nat \<times> nat \<times> nat).
              if fst x = k0 \<and> fst (snd x) = k then ?e t (snd (snd x)) else 0"
  have "has_shape3 (foldl (ZtZ_body Z t0 k0 k i) B [0..<Suc t0]) K K (2 * t0 + 1)
     \<and> (\<forall>x\<in>?S. foldl (ZtZ_body Z t0 k0 k i) B [0..<Suc t0] ! fst x ! fst (snd x) ! snd (snd x)
          = B ! fst x ! fst (snd x) ! snd (snd x) + (\<Sum>t<Suc t0. ?d t x))"
  proof (rule foldl_upt_additive
           [where I = "\<lambda>A. has_shape3 A K K (2 * t0 + 1)"
              and g = "\<lambda>A x. A ! fst x ! fst (snd x) ! snd (snd x)"
              and d = ?d and S = ?S])
    show "has_shape3 B K K (2 * t0 + 1)" by (rule assms(1))
  next
    fix t C
    assume t: "t < Suc t0" and C: "has_shape3 C K K (2 * t0 + 1)"
    then have t': "t \<le> t0" by simp
    show "has_shape3 (ZtZ_body Z t0 k0 k i C t) K K (2 * t0 + 1)
       \<and> (\<forall>x\<in>?S. ZtZ_body Z t0 k0 k i C t ! fst x ! fst (snd x) ! snd (snd x)
              = C ! fst x ! fst (snd x) ! snd (snd x) + ?d t x)"
      using ZtZ_body_step [OF C assms(2,3) t'] by simp
  qed
  moreover have "(\<Sum>t<Suc t0. ?d t x)
      = (if fst x = k0 \<and> fst (snd x) = k
         then lag_dot (Z ! k0 ! i) (Z ! k ! i) t0 (snd (snd x)) else 0)" if "x \<in> ?S" for x
  proof (cases "fst x = k0 \<and> fst (snd x) = k")
    case True
    then have "(\<Sum>t<Suc t0. ?d t x) = (\<Sum>t<Suc t0. ?e t (snd (snd x)))"
      by simp
    also have "\<dots> = lag_dot (Z ! k0 ! i) (Z ! k ! i) t0 (snd (snd x))"
      using that by (intro lag_dot_sum) simp
    finally show ?thesis
      using True by simp
  next
    case False
    then show ?thesis by auto
  qed
  ultimately show ?thesis
    by (simp del: sum.lessThan_Suc)
qed

lemma ZtZ_trials_loop:
  assumes "has_shape3 B K K (2 * t0 + 1)" "k0 < K" "k < K"
  shows "has_shape3 (foldl (\<lambda>A i. foldl (ZtZ_body Z t0 k0 k i) A [0..<Suc t0]) B [0..<N])
           K K (2 * t0 + 1)
     \<and> (\<forall>x\<in>{x. fst x < K \<and> fst (snd x) < K \<and> snd (snd x) < 2 * t0 + 1}.
          foldl (\<lambda>A i. foldl (ZtZ_body Z t0 k0 k i) A [0..<Suc t0]) B [0..<N]
            ! fst x ! fst (snd x) ! snd (snd x)
          = B ! fst x ! fst (snd x) ! snd (snd x)
            + (\<Sum>i<N. if fst x = k0 \<and> fst (snd x) = k
                       then lag_dot (Z ! k0 ! i) (Z ! k ! i) t0 (snd (snd x)) else 0))"
proof (rule foldl_upt_additive
         [where I = "\<lambda>A. has_shape3 A K K (2 * t0 + 1)"
            and g = "\<lambda>A x. A ! fst x ! fst (snd x) ! snd (snd x)"])
  show "has_shape3 B K K (2 * t0 + 1)" by (rule assms(1))
next
  fix i C
  assume "has_shape3 C K K (2 * t0 + 1)"
  then show "has_shape3 (foldl (ZtZ_body Z t0 k0 k i) C [0..<Suc t0]) K K (2 * t0 + 1)
     \<and> (\<forall>x\<in>{x. fst x < K \<and> fst (snd x) < K \<and> snd (snd x) < 2 * t0 + 1}.
          foldl (ZtZ_body Z t0 k0 k i) C [0..<Suc t0] ! fst x ! fst (snd x) ! snd (snd x)
          = C ! fst x ! fst (snd x) ! snd (snd x)
            + (if fst x = k0 \<and> fst (snd x) = k
               then lag_dot (Z ! k0 ! i) (Z ! k ! i) t0 (snd (snd x)) else 0))"
    using assms(2,3) by (rule ZtZ_lags_loop)
qed

lemma ZtZ_atoms_loop:
  assumes "has_shape3 B K K (2 * t0 + 1)" "k0 < K"
  shows "has_shape3
           (foldl (\<lambda>A k. foldl (\<lambda>A i. foldl (ZtZ_body Z t0 k0 k i) A [0..<Suc t0]) A [0..<N])
              B [0..<K])
           K K (2 * t0 + 1)
     \<and> (\<forall>x\<in>{x. fst x < K \<and> fst (snd x) < K \<and> snd (snd x) < 2 * t0 + 1}.
          foldl (\<lambda>A k. foldl (\<lambda>A i. foldl (ZtZ_body Z t0 k0 k i) A [0..<Suc t0]) A [0..<N])
              B [0..<K]
            ! fst x ! fst (snd x) ! snd (snd x)
          = B ! fst x ! fst (snd x) ! snd (snd x)
            + (if fst x = k0
               then (\<Sum>i<N. lag_dot (Z ! k0 ! i) (Z ! fst (snd x) ! i) t0 (snd (snd x)))
               else 0))"
proof -
  let ?S = "{x :: nat \<times> nat \<times> nat. fst x < K \<and> fst (snd x) < K \<and> snd (snd x) < 2 * t0 + 1}"
  let ?d = "\<lambda>k (x :: nat \<times> nat \<times> nat).
              \<Sum>i<N. if fst x = k0 \<and> fst (snd x) = k
                     then lag_dot (Z ! k0 ! i) (Z ! k ! i) t0 (snd (snd x)) else 0"
  let ?F = "\<lambda>A k. foldl (\<lambda>A i. foldl (ZtZ_body Z t0 k0 k i) A [0..<Suc t0]) A [0..<N]"
  have "has_shape3 (foldl ?F B [0..<K]) K K (2 * t0 + 1)
     \<and> (\<forall>x\<in>?S. foldl ?F B [0..<K] ! fst x ! fst (snd x) ! snd (snd x)
          = B ! fst x ! fst (snd x) ! snd (snd x) + (\<Sum>k<K. ?d k x))"
  proof (rule foldl_upt_additive
           [where I = "\<lambda>A. has_shape3 A K K (2 * t0 + 1)"
              and g = "\<lambda>A x. A ! fst x ! fst (snd x) ! snd (snd x)"
              and d = ?d and S = ?S and F = ?F])
    show "has_shape3 B K K (2 * t0 + 1)" by (rule assms(1))
  next
    fix k C
    assume k: "k < K" and C: "has_shape3 C K K (2 * t0 + 1)"
    show "has_shape3 (?F C k) K K (2 * t0 + 1)
       \<and> (\<forall>x\<in>?S. ?F C k ! fst x ! fst (snd x) ! snd (snd x)
              = C ! fst x ! fst (snd x) ! snd (snd x) + ?d k x)"
      by (rule ZtZ_trials_loop [OF C assms(2) k])
  qed
  moreover have "(\<Sum>k<K. ?d k x)
      = (if fst x = k0
         then (\<Sum>i<N. lag_dot (Z ! k0 ! i) (Z ! fst (snd x) ! i) t0 (snd (snd x)))
         else 0)" if "x \<in> ?S" for x
  proof -
    have "?d k x = (if k = fst (snd x)
                    then (if fst x = k0
                          then (\<Sum>i<N. lag_dot (Z ! k0 ! i) (Z ! fst (snd x) ! i) t0 (snd (snd x)))
                          else 0)
                    else 0)" for k
      by auto
    then have "(\<Sum>k<K. ?d k x)
        = (\<Sum>k<K. if k = fst (snd x)
                    then (if fst x = k0
                          then (\<Sum>i<N. lag_dot (Z ! k0 ! i) (Z ! fst (snd x) ! i) t0 (snd (snd x)))
                          else 0)
                    else 0)"
      by (simp only:)
    also have "\<dots> = (if fst x = k0
         then (\<Sum>i<N. lag_dot (Z ! k0 ! i) (Z ! fst (snd x) ! i) t0 (snd (snd x)))
         else 0)"
      using that by (simp add: sum.delta')
    finally show ?thesis .
  qed
  ultimately show ?thesis
    by simp
qed

lemma ZtZ_fill_entries:
  assumes "has_shape3 B K K (2 * t0 + 1)"
  shows "has_shape3 (ZtZ_fill Z K N (Suc t0) B) K K (2 * t0 + 1)"
    and "a < K \<Longrightarrow> b < K \<Longrightarrow> c < 2 * t0 + 1 \<Longrightarrow>
         ZtZ_fill Z K N (Suc t0) B ! a ! b ! c
           = B ! a ! b ! c + (\<Sum>i<N. lag_dot (Z ! a ! i) (Z ! b ! i) t0 c)"
proof -
  let ?S = "{x :: nat \<times> nat \<times> nat. fst x < K \<and> fst (snd x) < K \<and> snd (snd x) < 2 * t0 + 1}"
  let ?d = "\<lambda>k0 (x :: nat \<times> nat \<times> nat).
              if fst x = k0
              then (\<Sum>i<N. lag_dot (Z ! k0 ! i) (Z ! fst (snd x) ! i) t0 (snd (snd x)))
              else 0"
  let ?F = "\<lambda>A k0. foldl (\<lambda>A k. foldl (\<lambda>A i. foldl (ZtZ_body Z t0 k0 k i) A [0..<Suc t0])
                                    A [0..<N]) A [0..<K]"
  have fill: "ZtZ_fill Z K N (Suc t0) B = foldl ?F B [0..<K]"
    by (simp add: ZtZ_fill_def)
  have main: "has_shape3 (foldl ?F B [0..<K]) K K (2 * t0 + 1)
     \<and> (\<forall>x\<in>?S. foldl ?F B [0..<K] ! fst x ! fst (snd x) ! snd (snd x)
          = B ! fst x ! fst (snd x) ! snd (snd x) + (\<Sum>k0<K. ?d k0 x))"
  proof (rule foldl_upt_additive
           [where I = "\<lambda>A. has_shape3 A K K (2 * t0 + 1)"
              and g = "\<lambda>A x. A ! fst x ! fst (snd x) ! snd (snd x)"
              and d = ?d and S = ?S and F = ?F])
    show "has_shape3 B K K (2 * t0 + 1)" by (rule assms(1))
  next
    fix k0 C
    assume k0: "k0 < K" and C: "has_shape3 C K K (2 * t0 + 1)"
    show "has_shape3 (?F C k0) K K (2 * t0 + 1)
       \<and> (\<forall>x\<in>?S. ?F C k0 ! fst x ! fst (snd x) ! snd (snd x)
              = C ! fst x ! fst (snd x) ! snd (snd x) + ?d k0 x)"
      by (rule ZtZ_atoms_loop [OF C k0])
  qed
  from main show "has_shape3 (ZtZ_fill Z K N (Suc t0) B) K K (2 * t0 + 1)"
    by (simp only: fill)
  assume r: "a < K" "b < K" "c < 2 * t0 + 1"
  then have "(a, b, c) \<in> ?S"
    by simp
  with main have "foldl ?F B [0..<K] ! a ! b ! c = B ! a ! b ! c + (\<Sum>k0<K. ?d k0 (a, b, c))"
    by fastforce
  also have "(\<Sum>k0<K. ?d k0 (a, b, c)) = (\<Sum>i<N. lag_dot (Z ! a ! i) (Z ! b ! i) t0 c)"
    using r(1) by (simp add: sum.delta)
  finally show "ZtZ_fill Z K N (Suc t0) B ! a ! b ! c
           = B ! a ! b ! c + (\<Sum>i<N. lag_dot (Z ! a ! i) (Z ! b ! i) t0 c)"
    by (simp only: fill)
qed


lemma dot_commute: "dot a b = dot b a"
proof -
  have "map2 (*) a b = map2 (*) b a"
    by (induction a arbitrary: b) (case_tac b; simp)+
  then show ?thesis
    by (simp add: dot_def)
qed

lemma lag_dot_sym:
  assumes "t \<le> t0"
  shows "lag_dot a b t0 (t0 + t) = lag_dot b a t0 (t0 - t)"
proof (cases "t = 0")
  case True
  then show ?thesis
    by (simp add: lag_dot_def dot_commute)
next
  case False
  with assms have "lag_dot a b t0 (t0 + t) = dot (take (length a - t) a) (drop t b)"
    by (simp add: lag_dot_def)
  moreover have "t0 - t < t0" "t0 - (t0 - t) = t"
    using False assms by auto
  then have "lag_dot b a t0 (t0 - t) = dot (drop t b) (take (length a - t) a)"
    by (simp add: lag_dot_def)
  ultimately show ?thesis
    by (simp add: dot_commute)
qed

lemma get_d_update_constants_ZtZ:
  assumes "get_d_update_constants X Z = Inr c"
    and "shape3 Z = (K, N, Tv)" and "shape3 X = (N', P, T)"
  shows "Tv \<le> T \<and> n_chan c = P
     \<and> ZtZ c = ZtZ_fill Z K N (Suc (T - Tv))
                 (replicate K (replicate K (replicate (2 * (T - Tv) + 1) 0)))"
proof -
  have le: "Tv \<le> T"
    using assms by (auto simp: get_d_update_constants_def Let_def split: sum.splits if_splits)
  then have d: "int T - int Tv = int (T - Tv)"
    by simp
  have "nat (int T - int Tv + 1) = Suc (T - Tv)"
    and "nat (2 * (int T - int Tv + 1) - 1) = 2 * (T - Tv) + 1"
    unfolding d by (simp_all add: nat_add_distrib nat_mult_distrib)
  with assms le show ?thesis
    by (auto simp: get_d_update_constants_def Let_def split: sum.splits if_splits)
qed

text \<open>
  C5: for every code tensor, the autocorrelation tensor that
  \<^verbatim>\<open>_get_d_update_constants\<close> returns satisfies
  \<open>ZtZ[k0, k, t0 + t] = ZtZ[k, k0, t0 - t]\<close> for all atoms \<open>k0\<close>, \<open>k\<close> and all lags
  \<open>t\<close> below \<open>n_times_atom\<close>, where \<open>t0 = n_times_atom - 1\<close>.
\<close>

theorem ZtZ_symmetric:
  assumes "get_d_update_constants X Z = Inr c"
    and "shape3 Z = (n_atoms, n_trials, n_times_valid)"
    and "shape3 X = (n, n_channels, n_times)"
    and "int n_times_atom = int n_times - int n_times_valid + 1"
    and "k0 < n_atoms" and "k < n_atoms" and "t < n_times_atom"
  shows "ZtZ c ! k0 ! k ! (n_times_atom - 1 + t) = ZtZ c ! k ! k0 ! (n_times_atom - 1 - t)"
proof -
  define t0 where "t0 = n_times - n_times_valid"
  define M where "M = 2 * t0 + 1"
  let ?zeros = "replicate n_atoms (replicate n_atoms (replicate M (0::real)))"
  from get_d_update_constants_ZtZ [OF assms(1-3)]
  have le: "n_times_valid \<le> n_times"
    and zz: "ZtZ c = ZtZ_fill Z n_atoms n_trials (Suc t0) ?zeros"
    by (simp_all add: t0_def M_def)
  from le assms(4) have nta: "n_times_atom = Suc t0"
    by (simp add: t0_def)
  with assms(7) have t: "t \<le> t0"
    by simp
  have sh: "has_shape3 ?zeros n_atoms n_atoms (2 * t0 + 1)"
    unfolding M_def by (rule has_shape3_replicate)
  have M: "t0 + t < M" "t0 - t < M"
    using t by (simp_all add: M_def)
  have "ZtZ c ! k0 ! k ! (t0 + t)
          = ?zeros ! k0 ! k ! (t0 + t)
            + (\<Sum>i<n_trials. lag_dot (Z ! k0 ! i) (Z ! k ! i) t0 (t0 + t))"
    unfolding zz using t by (intro ZtZ_fill_entries(2) [OF sh] assms(5,6)) simp
  also have "\<dots> = (\<Sum>i<n_trials. lag_dot (Z ! k ! i) (Z ! k0 ! i) t0 (t0 - t))"
    using t assms(5,6) M by (simp add: lag_dot_sym)
  also have "\<dots> = ?zeros ! k ! k0 ! (t0 - t)
            + (\<Sum>i<n_trials. lag_dot (Z ! k ! i) (Z ! k0 ! i) t0 (t0 - t))"
    using t assms(5,6) M by simp
  also have "\<dots> = ZtZ c ! k ! k0 ! (t0 - t)"
    unfolding zz by (rule sym, intro ZtZ_fill_entries(2) [OF sh] assms(5,6)) simp
  finally show ?thesis
    by (simp add: nta)
qed


lemma constants_ex2:
  "get_d_update_constants [[[1, 0, 2]]] [[[1, 2]], [[3, 1]]]
   = Inr \<lparr>ZtZ = [[[2, 5, 2], [6, 5, 1]], [[1, 5, 6], [3, 10, 3]]],
          ZtX = [[[1, 4]], [[3, 2]]], n_chan = 1\<rparr>"
  by code_simp

theorem ZtZ_symmetric_witness:
  "ZtZ \<lparr>ZtZ = [[[2, 5, 2], [6, 5, 1]], [[1, 5, 6], [3, 10, 3]]],
        ZtX = [[[1, 4]], [[3, 2]]], n_chan = 1\<rparr> ! 0 ! 1 ! (2 - 1 + 1)
   = ZtZ \<lparr>ZtZ = [[[2, 5, 2], [6, 5, 1]], [[1, 5, 6], [3, 10, 3]]],
          ZtX = [[[1, 4]], [[3, 2]]], n_chan = 1\<rparr> ! 1 ! 0 ! (2 - 1 - 1)"
proof -
  have s1: "shape3 [[[1, 2]], [[3, 1]]] = (2, 1, 2)"
    by (simp add: shape3_def)
  have s2: "shape3 [[[1, 0, 2]]] = (1, 1, 3)"
    by (simp add: shape3_def)
  have s3: "int 2 = int 3 - int 2 + 1" "(0::nat) < 2" "(1::nat) < 2"
    by simp_all
  show ?thesis
    by (rule ZtZ_symmetric [OF constants_ex2 s1 s2 s3(1) s3(2) s3(3) s3(3)])
qed

section \<open>Properties of the gradient\<close>

lemma length_construct_X_multi:
  "length (construct_X_multi Z D) = fst (snd (shape3 Z))"
  by (simp add: construct_X_multi_def split: prod.splits)

text \<open>
  C8, as the code has it: without a statistics record, a missing \<open>X\<close> or \<open>Z\<close>
  fails the assertion at once. Shapes are not checked; a mismatch raises where an
  array operation cannot broadcast it, as when \<open>X\<close> and \<open>Z\<close> disagree on the number
  of trials and neither number is 1.
\<close>

theorem gradient_uv_fails_fast:
  "(X = None \<or> Z = None \<longrightarrow> gradient_uv uv X Z None = Inl AssertionError)
   \<and> (length X' \<noteq> fst (snd (shape3 Z')) \<and> length X' \<noteq> 1 \<and> fst (snd (shape3 Z')) \<noteq> 1
        \<longrightarrow> gradient_uv uv (Some X') (Some Z') None = Inl ValueError)"
proof (intro conjI impI)
  assume "X = None \<or> Z = None"
  then show "gradient_uv uv X Z None = Inl AssertionError"
    by (auto simp: gradient_uv_def split: option.splits)
next
  assume h: "length X' \<noteq> fst (snd (shape3 Z')) \<and> length X' \<noteq> 1 \<and> fst (snd (shape3 Z')) \<noteq> 1"
  have "np_op3 (-) (construct_X_multi Z' D) X' = Inl ValueError" for D
    using h by (simp add: np_op3_def broadcast_def length_construct_X_multi)
  then show "gradient_uv uv (Some X') (Some Z') None = Inl ValueError"
    by (simp add: gradient_uv_def gradient_d_def)
qed

theorem gradient_uv_fails_fast_witness:
  "gradient_uv [[1, 1, 0]] None None None = Inl AssertionError
   \<and> gradient_uv [[1, 1, 0]] (Some [[[1, 0, 2]], [[1, 0, 2]], [[1, 0, 2]]])
        (Some [[[1, 2], [0, 1]]]) None = Inl ValueError"
  using gradient_uv_fails_fast [of None None "[[1, 1, 0]]" "[[[1, 0, 2]], [[1, 0, 2]], [[1, 0, 2]]]"
          "[[[1, 2], [0, 1]]]"]
  by (simp add: shape3_def)

text \<open>
  C8 as stated fails: one trial in \<open>X\<close> against two trials in \<open>Z\<close> is broadcast, and
  a gradient comes back.
\<close>

theorem gradient_uv_trial_mismatch_counterexample:
  "fst (shape3 [[[1, 0, 2]]]) = 1 \<and> fst (snd (shape3 [[[1, 2], [0, 1]]])) = 2
   \<and> gradient_uv [[1, 1, 0]] (Some [[[1, 0, 2]]]) (Some [[[1, 2], [0, 1]]]) None
       = Inr [[5, 5, - 4]]"
  by code_simp

section \<open>The two paths of the gradient\<close>


lemma sum_list_upt: "sum_list (map f [0..<n]) = (\<Sum>i<n. f i)"
  by (simp add: interv_sum_list_conv_sum_set_nat atLeast0LessThan)

lemma shape3_eq:
  assumes "has_shape3 A a b c" "0 < a" "0 < b"
  shows "shape3 A = (a, b, c)"
proof -
  from assms obtain m A' where A: "A = m # A'"
    by (cases A) (auto simp: has_shape3_def)
  with assms obtain r m' where m: "m = r # m'"
    by (cases m) (auto simp: has_shape3_def)
  from assms A m show ?thesis
    by (auto simp: has_shape3_def shape3_def)
qed

lemma ten_eqI:
  assumes "has_shape3 A a b c" "has_shape3 B a b c"
    and "\<And>i j k. i < a \<Longrightarrow> j < b \<Longrightarrow> k < c \<Longrightarrow> A ! i ! j ! k = B ! i ! j ! k"
  shows "A = B"
proof (rule nth_equalityI)
  show "length A = length B"
    using assms(1,2) by (simp add: has_shape3_iff)
next
  fix i assume "i < length A"
  then have i: "i < a" using assms(1) by (simp add: has_shape3_iff)
  show "A ! i = B ! i"
  proof (rule nth_equalityI)
    show "length (A ! i) = length (B ! i)"
      using assms(1,2) i by (simp add: has_shape3_iff)
  next
    fix j assume "j < length (A ! i)"
    then have j: "j < b" using assms(1) i by (simp add: has_shape3_iff)
    show "A ! i ! j = B ! i ! j"
    proof (rule nth_equalityI)
      show "length (A ! i ! j) = length (B ! i ! j)"
        using assms(1,2) i j by (simp add: has_shape3_iff)
    next
      fix k assume "k < length (A ! i ! j)"
      then have "k < c" using assms(1) i j by (simp add: has_shape3_iff)
      with i j show "A ! i ! j ! k = B ! i ! j ! k"
        by (rule assms(3))
    qed
  qed
qed

lemma all_eqI: "(\<And>x. x \<in> set ns \<Longrightarrow> x = c) \<Longrightarrow> all_eq ns"
proof (cases ns)
  case Nil
  then show ?thesis by (simp add: all_eq_def)
next
  case (Cons n ns')
  assume "\<And>x. x \<in> set ns \<Longrightarrow> x = c"
  then have "\<forall>x\<in>set ns. x = hd ns"
    using Cons by auto
  then have "ns = replicate (length ns) (hd ns)"
    by (metis replicate_length_same)
  then show ?thesis
    by (simp add: all_eq_def)
qed

text \<open>A list of matrices of one shape, added up entry by entry.\<close>

lemma sum_mats_entries:
  assumes "ms \<noteq> []"
    and "\<And>m. m \<in> set ms \<Longrightarrow> length m = P \<and> (\<forall>p<P. length (m ! p) = L)"
  shows "length (sum_mats ms) = P
     \<and> (\<forall>p<P. length (sum_mats ms ! p) = L
          \<and> (\<forall>t<L. sum_mats ms ! p ! t = (\<Sum>i<length ms. ms ! i ! p ! t)))"
  using assms
proof (induction ms rule: sum_mats.induct)
  case 1
  then show ?case by simp
next
  case (2 m)
  then show ?case by simp
next
  case (3 m m' ms)
  let ?r = "sum_mats (m' # ms)"
  have ih: "length ?r = P
     \<and> (\<forall>p<P. length (?r ! p) = L
          \<and> (\<forall>t<L. ?r ! p ! t = (\<Sum>i<length (m' # ms). (m' # ms) ! i ! p ! t)))"
    by (rule "3.IH") (simp_all add: "3.prems"(2))
  have m: "length m = P" "\<forall>p<P. length (m ! p) = L"
    using "3.prems"(2) [of m] by simp_all
  show ?case
  proof (intro conjI allI impI)
    show "length (sum_mats (m # m' # ms)) = P"
      using ih m by (simp add: mat_add_def)
  next
    fix p assume p: "p < P"
    then show "length (sum_mats (m # m' # ms) ! p) = L"
      using ih m by (simp add: mat_add_def)
  next
    fix p t assume p: "p < P" and t: "t < L"
    have "sum_mats (m # m' # ms) ! p ! t = m ! p ! t + ?r ! p ! t"
      using ih m p t by (simp add: mat_add_def)
    also have "\<dots> = m ! p ! t + (\<Sum>i<length (m' # ms). (m' # ms) ! i ! p ! t)"
      using ih p t by simp
    also have "\<dots> = (\<Sum>i<length (m # m' # ms). (m # m' # ms) ! i ! p ! t)"
      by (simp add: sum.lessThan_Suc_shift del: sum.lessThan_Suc)
    finally show "sum_mats (m # m' # ms) ! p ! t
        = (\<Sum>i<length (m # m' # ms). (m # m' # ms) ! i ! p ! t)" .
  qed
qed

lemma np_sum_axis1_entries:
  assumes "length xs = K" "0 < K" "0 < N"
    and "\<And>k. k < K \<Longrightarrow> length (xs ! k) = N"
    and "\<And>k i. k < K \<Longrightarrow> i < N \<Longrightarrow> length (xs ! k ! i) = P"
    and "\<And>k i p. k < K \<Longrightarrow> i < N \<Longrightarrow> p < P \<Longrightarrow> length (xs ! k ! i ! p) = L"
  shows "np_sum_axis1 xs = Inr (map sum_mats xs)"
    and "has_shape3 (map sum_mats xs) K P L"
    and "\<And>k p t. k < K \<Longrightarrow> p < P \<Longrightarrow> t < L \<Longrightarrow>
           map sum_mats xs ! k ! p ! t = (\<Sum>i<N. xs ! k ! i ! p ! t)"
proof -
  have l1: "length ms = N" if "ms \<in> set xs" for ms
    using that assms(1,4) by (auto simp: in_set_conv_nth)
  have l2: "length m = P \<and> (\<forall>p<P. length (m ! p) = L)" if "ms \<in> set xs" "m \<in> set ms" for ms m
  proof -
    from that(1) obtain k where k: "k < K" "ms = xs ! k"
      using assms(1) by (auto simp: in_set_conv_nth)
    with that(2) assms(4) obtain i where i: "i < N" "m = xs ! k ! i"
      by (auto simp: in_set_conv_nth)
    with k assms(5,6) show ?thesis by simp
  qed
  have l3: "length r = L" if "ms \<in> set xs" "m \<in> set ms" "r \<in> set m" for ms m r
  proof -
    from l2 [OF that(1,2)] that(3) show ?thesis
      by (auto simp: in_set_conv_nth)
  qed
  have "all_eq (map length xs)"
    by (rule all_eqI [where c = N]) (auto simp: l1)
  moreover have "all_eq (map length (concat xs))"
    by (rule all_eqI [where c = P]) (auto simp: l2)
  moreover have "all_eq (map length (concat (concat xs)))"
    by (rule all_eqI [where c = L]) (auto simp: l3)
  ultimately have "rectangular4 xs"
    by (simp add: rectangular4_def)
  moreover have "xs \<noteq> []"
    using assms(1,2) by auto
  ultimately show "np_sum_axis1 xs = Inr (map sum_mats xs)"
    by (simp add: np_sum_axis1_def)
  have e: "length (sum_mats (xs ! k)) = P
     \<and> (\<forall>p<P. length (sum_mats (xs ! k) ! p) = L
          \<and> (\<forall>t<L. sum_mats (xs ! k) ! p ! t = (\<Sum>i<length (xs ! k). xs ! k ! i ! p ! t)))"
    if "k < K" for k
  proof (rule sum_mats_entries)
    show "xs ! k \<noteq> []"
      using assms(3,4) that by auto
  next
    fix m assume "m \<in> set (xs ! k)"
    with l2 [of "xs ! k" m] that assms(1)
    show "length m = P \<and> (\<forall>p<P. length (m ! p) = L)"
      by simp
  qed
  show "has_shape3 (map sum_mats xs) K P L"
    using e assms(1) by (simp add: has_shape3_iff)
  fix k p t assume "k < K" "p < P" "t < L"
  then show "map sum_mats xs ! k ! p ! t = (\<Sum>i<N. xs ! k ! i ! p ! t)"
    using e [of k] assms(1,4) by simp
qed


lemma sequence_err_map:
  assumes "\<And>x. x \<in> set xs \<Longrightarrow> f x = Inr (g x)"
  shows "sequence_err (map f xs) = Inr (map g xs)"
  using assms by (induction xs) simp_all

lemma np_op3_same:
  assumes "has_shape3 A a b c" "has_shape3 B a b c"
  shows "np_op3 f A B = Inr (map2 (map2 (map2 f)) A B)"
proof -
  have len: "length A = length B"
    using assms by (simp add: has_shape3_def)
  have "np_op2 f x y = Inr (map2 (map2 f) x y)" if "(x, y) \<in> set (zip A B)" for x y
  proof -
    from that have "x \<in> set A" "y \<in> set B"
      by (auto dest: set_zip_leftD set_zip_rightD)
    with assms have "map length x = replicate b c" "map length y = replicate b c"
      by (auto simp: has_shape3_def list_all_iff intro!: replicate_eqI)
    then show ?thesis
      by (simp add: np_op2_same)
  qed
  then have "sequence_err (map (\<lambda>(x, y). np_op2 f x y) (zip A B))
      = Inr (map (\<lambda>(x, y). map2 (map2 f) x y) (zip A B))"
    by (intro sequence_err_map) auto
  with len show ?thesis
    by (simp add: np_op3_def broadcast_def)
qed

lemma map2_3_entries:
  assumes "has_shape3 A a b c" "has_shape3 B a b c"
  shows "has_shape3 (map2 (map2 (map2 f)) A B) a b c"
    and "\<And>i j k. i < a \<Longrightarrow> j < b \<Longrightarrow> k < c \<Longrightarrow>
           map2 (map2 (map2 f)) A B ! i ! j ! k = f (A ! i ! j ! k) (B ! i ! j ! k)"
  using assms by (simp_all add: has_shape3_iff)

text \<open>Sums over a window and over a reversed index.\<close>

lemma sum_window:
  fixes f :: "nat \<Rightarrow> real"
  assumes "m + n \<le> T"
  shows "(\<Sum>i<T. if m \<le> i \<and> i < m + n then f i else 0) = (\<Sum>s<n. f (m + s))"
proof -
  have "(\<Sum>i<T. if m \<le> i \<and> i < m + n then f i else 0)
      = (\<Sum>i\<in>{..<T} \<inter> {i. m \<le> i \<and> i < m + n}. f i)"
    by (simp add: sum.inter_restrict)
  also have "{..<T} \<inter> {i. m \<le> i \<and> i < m + n} = {0 + m..<n + m}"
    using assms by auto
  also have "(\<Sum>i\<in>{0 + m..<n + m}. f i) = (\<Sum>s\<in>{0..<n}. f (s + m))"
    by (rule sum.shift_bounds_nat_ivl)
  finally show ?thesis
    by (simp add: atLeast0LessThan add.commute)
qed

lemma sum_reverse:
  fixes f :: "nat \<Rightarrow> real"
  shows "(\<Sum>i<n. f (n - Suc i)) = (\<Sum>i<n. f i)"
  by (rule sum.nat_diff_reindex)

lemma conv_at_sum:
  "conv_at a b n = (\<Sum>i<length a. if i \<le> n \<and> n - i < length b then a ! i * b ! (n - i) else 0)"
  by (simp add: conv_at_def sum_list_upt)

text \<open>
  Mode \<open>valid\<close> against a reversed code row is the correlation of the row with the
  signal, whichever argument comes first.
\<close>

lemma conv_at_signal_rev:
  assumes "length x = T" "length z = Tv" "t + Tv \<le> T" "0 < Tv"
  shows "conv_at x (rev z) (t + Tv - 1) = (\<Sum>s<Tv. z ! s * x ! (t + s))"
proof -
  have "(if i \<le> t + Tv - 1 \<and> t + Tv - 1 - i < length (rev z)
         then x ! i * rev z ! (t + Tv - 1 - i) else 0)
      = (if t \<le> i \<and> i < t + Tv then z ! (i - t) * x ! i else 0)" for i
  proof -
    have c: "(i \<le> t + Tv - 1 \<and> t + Tv - 1 - i < length (rev z)) \<longleftrightarrow> (t \<le> i \<and> i < t + Tv)"
      using assms(2,4) by auto
    show ?thesis
    proof (cases "t \<le> i \<and> i < t + Tv")
      case True
      then have "t + Tv - 1 - i < length z" "length z - Suc (t + Tv - 1 - i) = i - t"
        using assms(2) by auto
      then have "rev z ! (t + Tv - 1 - i) = z ! (i - t)"
        by (simp only: rev_nth)
      then show ?thesis
        unfolding c using True by (simp only: if_True mult.commute)
    next
      case False
      then show ?thesis
        unfolding c by (simp only: if_False)
    qed
  qed
  then have "conv_at x (rev z) (t + Tv - 1)
      = (\<Sum>i<T. if t \<le> i \<and> i < t + Tv then z ! (i - t) * x ! i else 0)"
    by (simp only: conv_at_sum assms(1))
  also have "\<dots> = (\<Sum>s<Tv. z ! (t + s - t) * x ! (t + s))"
    by (rule sum_window [OF assms(3)])
  finally show ?thesis
    by simp
qed

lemma conv_at_rev_signal:
  assumes "length x = T" "length z = Tv" "t + Tv \<le> T" "0 < Tv"
  shows "conv_at (rev z) x (t + Tv - 1) = (\<Sum>s<Tv. z ! s * x ! (t + s))"
proof -
  have eq: "(if i \<le> t + Tv - 1 \<and> t + Tv - 1 - i < length x
         then rev z ! i * x ! (t + Tv - 1 - i) else 0)
      = z ! (Tv - Suc i) * x ! (t + (Tv - Suc i))" if "i < Tv" for i
  proof -
    from that assms(3) have "i \<le> t + Tv - 1" "t + Tv - 1 - i < T" "t + Tv - 1 - i = t + (Tv - Suc i)"
      by auto
    with that assms(1,2) show ?thesis
      by (simp add: rev_nth)
  qed
  have "conv_at (rev z) x (t + Tv - 1)
      = (\<Sum>i<length (rev z). if i \<le> t + Tv - 1 \<and> t + Tv - 1 - i < length x
         then rev z ! i * x ! (t + Tv - 1 - i) else 0)"
    by (rule conv_at_sum)
  also have "\<dots> = (\<Sum>i<Tv. z ! (Tv - Suc i) * x ! (t + (Tv - Suc i)))"
    by (rule sum.cong) (use eq assms(2) in simp_all)
  also have "\<dots> = (\<Sum>s<Tv. z ! s * x ! (t + s))"
    by (rule sum_reverse [where f = "\<lambda>s. z ! s * x ! (t + s)"])
  finally show ?thesis .
qed

lemma length_convolve_valid:
  assumes "a \<noteq> []" "b \<noteq> []"
  shows "length (convolve_valid a b)
           = max (length a) (length b) - min (length a) (length b) + 1"
  using assms by (simp add: convolve_valid_def)

lemma nth_convolve_valid:
  assumes "a \<noteq> []" "b \<noteq> []" "t < max (length a) (length b) - min (length a) (length b) + 1"
  shows "convolve_valid a b ! t = conv_at a b (t + min (length a) (length b) - 1)"
  using assms by (simp add: convolve_valid_def del: upt_Suc)


lemma dot_sum:
  assumes "length u = n" "length v = n"
  shows "dot u v = (\<Sum>i<n. u ! i * v ! i)"
proof -
  have "dot u v = (\<Sum>i = 0..<length (map2 (*) u v). map2 (*) u v ! i)"
    unfolding dot_def by (rule sum_list_sum_nth)
  also have "\<dots> = (\<Sum>i<n. u ! i * v ! i)"
    using assms by (intro sum.cong) (auto simp: atLeast0LessThan)
  finally show ?thesis .
qed

lemma sum_below:
  fixes f :: "nat \<Rightarrow> real"
  shows "(\<Sum>s<n. if s + t < n then f s else 0) = (\<Sum>s<n - t. f s)"
proof -
  have "(\<Sum>s<n. if s + t < n then f s else 0)
      = (\<Sum>s<n. if 0 \<le> s \<and> s < 0 + (n - t) then f s else 0)"
    by (intro sum.cong) auto
  also have "\<dots> = (\<Sum>s<n - t. f (0 + s))"
    by (rule sum_window) simp
  finally show ?thesis by simp
qed

text \<open>
  The entry of the full convolution and the shifted dot products, written as sums over
  the pairs of positions that meet.
\<close>

lemma conv_at_pairs:
  assumes "length b = Tv" "length d = L"
  shows "conv_at b d n = (\<Sum>s<Tv. \<Sum>l<L. if s + l = n then b ! s * d ! l else 0)"
proof -
  have "(\<Sum>l<L. if s + l = n then b ! s * d ! l else 0)
      = (if s \<le> n \<and> n - s < L then b ! s * d ! (n - s) else 0)" for s
  proof (cases "s \<le> n")
    case True
    then have "(\<Sum>l<L. if s + l = n then b ! s * d ! l else 0)
        = (\<Sum>l<L. if l = n - s then b ! s * d ! l else 0)"
      by (intro sum.cong) auto
    also have "\<dots> = (if n - s < L then b ! s * d ! (n - s) else 0)"
      by (simp add: sum.delta)
    finally show ?thesis
      using True by simp
  next
    case False
    then have "(\<Sum>l<L. if s + l = n then b ! s * d ! l else 0) = (\<Sum>l<L. 0)"
      by (intro sum.cong) auto
    with False show ?thesis by simp
  qed
  then show ?thesis
    by (simp only: conv_at_sum assms)
qed

lemma lag_dot_pairs:
  assumes "length a = Tv" "length b = Tv" "t \<le> t0" "l \<le> t0"
  shows "lag_dot a b t0 (t0 + t - l)
       = (\<Sum>s<Tv. \<Sum>s'<Tv. if s' + l = t + s then a ! s * b ! s' else 0)"
proof -
  consider (eq) "t = l" | (gt) "l < t" | (lt) "t < l"
    by linarith
  then show ?thesis
  proof cases
    case eq
    have "(\<Sum>s'<Tv. if s' + l = t + s then a ! s * b ! s' else 0) = a ! s * b ! s"
      if "s \<in> {..<Tv}" for s
    proof -
      have "(\<Sum>s'<Tv. if s' + l = t + s then a ! s * b ! s' else 0)
          = (\<Sum>s'<Tv. if s' = s then a ! s * b ! s' else 0)"
        using eq by (intro sum.cong) auto
      also have "\<dots> = a ! s * b ! s"
        using that by (simp add: sum.delta)
      finally show ?thesis .
    qed
    then have "(\<Sum>s<Tv. \<Sum>s'<Tv. if s' + l = t + s then a ! s * b ! s' else 0)
        = (\<Sum>s<Tv. a ! s * b ! s)"
      by (rule sum.cong [OF refl])
    moreover have "lag_dot a b t0 (t0 + t - l) = dot a b"
      using eq by (simp add: lag_dot_def)
    ultimately show ?thesis
      by (simp add: dot_sum [OF assms(1,2)])
  next
    case gt
    define u where "u = t - l"
    have u: "0 < u" "t0 + t - l = t0 + u" "t = l + u"
      using gt assms(4) by (simp_all add: u_def)
    have "(\<Sum>s'<Tv. if s' + l = t + s then a ! s * b ! s' else 0)
        = (if s + u < Tv then a ! s * b ! (u + s) else 0)" for s
    proof -
      have "(\<Sum>s'<Tv. if s' + l = t + s then a ! s * b ! s' else 0)
          = (\<Sum>s'<Tv. if s' = s + u then a ! s * b ! s' else 0)"
        using u by (intro sum.cong) auto
      also have "\<dots> = (if s + u < Tv then a ! s * b ! (u + s) else 0)"
        by (simp add: sum.delta add.commute)
      finally show ?thesis .
    qed
    then have "(\<Sum>s<Tv. \<Sum>s'<Tv. if s' + l = t + s then a ! s * b ! s' else 0)
        = (\<Sum>s<Tv. if s + u < Tv then a ! s * b ! (u + s) else 0)"
      by (simp only:)
    also have "\<dots> = (\<Sum>s<Tv - u. a ! s * b ! (u + s))"
      by (rule sum_below)
    finally have rhs: "(\<Sum>s<Tv. \<Sum>s'<Tv. if s' + l = t + s then a ! s * b ! s' else 0)
        = (\<Sum>s<Tv - u. a ! s * b ! (u + s))" .
    have "lag_dot a b t0 (t0 + t - l) = dot (take (Tv - u) a) (drop u b)"
      using u assms(1) by (simp add: lag_dot_def)
    also have "\<dots> = (\<Sum>s<Tv - u. take (Tv - u) a ! s * drop u b ! s)"
      by (rule dot_sum) (simp_all add: assms)
    also have "\<dots> = (\<Sum>s<Tv - u. a ! s * b ! (u + s))"
      using assms by (intro sum.cong) auto
    finally show ?thesis
      by (simp only: rhs)
  next
    case lt
    define u where "u = l - t"
    have u: "0 < u" "t0 + t - l = t0 - u" "l = t + u" "t0 - u < t0" "t0 - (t0 - u) = u"
      using lt assms(4) by (simp_all add: u_def)
    have "(\<Sum>s<Tv. if s' + l = t + s then a ! s * b ! s' else 0)
        = (if s' + u < Tv then a ! (u + s') * b ! s' else 0)" for s'
    proof -
      have "(\<Sum>s<Tv. if s' + l = t + s then a ! s * b ! s' else 0)
          = (\<Sum>s<Tv. if s = s' + u then a ! s * b ! s' else 0)"
        using u by (intro sum.cong) auto
      also have "\<dots> = (if s' + u < Tv then a ! (u + s') * b ! s' else 0)"
        by (simp add: sum.delta add.commute)
      finally show ?thesis .
    qed
    then have "(\<Sum>s'<Tv. \<Sum>s<Tv. if s' + l = t + s then a ! s * b ! s' else 0)
        = (\<Sum>s'<Tv. if s' + u < Tv then a ! (u + s') * b ! s' else 0)"
      by (simp only:)
    also have "\<dots> = (\<Sum>s'<Tv - u. a ! (u + s') * b ! s')"
      by (rule sum_below)
    finally have "(\<Sum>s'<Tv. \<Sum>s<Tv. if s' + l = t + s then a ! s * b ! s' else 0)
        = (\<Sum>s'<Tv - u. a ! (u + s') * b ! s')" .
    then have rhs: "(\<Sum>s<Tv. \<Sum>s'<Tv. if s' + l = t + s then a ! s * b ! s' else 0)
        = (\<Sum>s'<Tv - u. a ! (u + s') * b ! s')"
      by (subst sum.swap)
    have "t0 - u \<noteq> t0" "\<not> t0 < t0 - u"
      using u(4) by simp_all
    then have "lag_dot a b t0 (t0 - u) = dot (drop u a) (take (Tv - u) b)"
      unfolding lag_dot_def by (simp only: if_False u(5) assms(2))
    then have "lag_dot a b t0 (t0 + t - l) = dot (drop u a) (take (Tv - u) b)"
      by (simp only: u(2))
    also have "\<dots> = (\<Sum>s<Tv - u. drop u a ! s * take (Tv - u) b ! s)"
      by (rule dot_sum) (simp_all add: assms)
    also have "\<dots> = (\<Sum>s<Tv - u. a ! (u + s) * b ! s)"
      using assms by (intro sum.cong) auto
    finally show ?thesis
      by (simp only: rhs)
  qed
qed


text \<open>The nested comprehension that all three sums over trials or atoms share.\<close>

lemma comprehension_sum_entries:
  fixes f :: "vec \<Rightarrow> vec \<Rightarrow> vec"
  assumes A: "has_shape3 A K N a" and B: "has_shape3 B N P b"
    and pos: "0 < K" "0 < N"
    and len: "\<forall>u v. length u = a \<longrightarrow> length v = b \<longrightarrow> length (f u v) = L"
  defines "xs \<equiv> map (\<lambda>ak. map (\<lambda>(aki, bi). map (\<lambda>bip. f aki bip) bi) (zip ak B)) A"
  shows "np_sum_axis1 xs = Inr (map sum_mats xs)"
    and "has_shape3 (map sum_mats xs) K P L"
    and "\<And>k p t. k < K \<Longrightarrow> p < P \<Longrightarrow> t < L \<Longrightarrow>
           map sum_mats xs ! k ! p ! t = (\<Sum>i<N. f (A ! k ! i) (B ! i ! p) ! t)"
proof -
  have lA: "length A = K" and lB: "length B = N"
    using A B by (simp_all add: has_shape3_iff)
  have lAk: "length (A ! k) = N" if "k < K" for k
    using A that by (simp add: has_shape3_iff)
  have lAki: "length (A ! k ! i) = a" if "k < K" "i < N" for k i
    using A that by (simp add: has_shape3_iff)
  have lBi: "length (B ! i) = P" if "i < N" for i
    using B that by (simp add: has_shape3_iff)
  have lBip: "length (B ! i ! p) = b" if "i < N" "p < P" for i p
    using B that by (simp add: has_shape3_iff)
  have x1: "length xs = K"
    by (simp add: xs_def lA)
  have x2: "length (xs ! k) = N" if "k < K" for k
    using that by (simp add: xs_def lA lAk lB)
  have x3: "xs ! k ! i = map (\<lambda>bip. f (A ! k ! i) bip) (B ! i)" if "k < K" "i < N" for k i
    using that by (simp add: xs_def lA lAk lB)
  have x4: "length (xs ! k ! i) = P" if "k < K" "i < N" for k i
    using that by (simp add: x3 lBi)
  have x5: "xs ! k ! i ! p = f (A ! k ! i) (B ! i ! p)" if "k < K" "i < N" "p < P" for k i p
    using that by (simp add: x3 lBi)
  have x6: "length (xs ! k ! i ! p) = L" if "k < K" "i < N" "p < P" for k i p
    using that by (simp add: x5 len lAki lBip)
  show "np_sum_axis1 xs = Inr (map sum_mats xs)"
    by (rule np_sum_axis1_entries(1) [OF x1 pos x2 x4 x6])
  show "has_shape3 (map sum_mats xs) K P L"
    by (rule np_sum_axis1_entries(2) [OF x1 pos x2 x4 x6])
  fix k p t assume r: "k < K" "p < P" "t < L"
  have "map sum_mats xs ! k ! p ! t = (\<Sum>i<N. xs ! k ! i ! p ! t)"
    by (rule np_sum_axis1_entries(3) [OF x1 pos x2 x4 x6 r])
  also have "\<dots> = (\<Sum>i<N. f (A ! k ! i) (B ! i ! p) ! t)"
    using r by (intro sum.cong) (simp_all add: x5)
  finally show "map sum_mats xs ! k ! p ! t = (\<Sum>i<N. f (A ! k ! i) (B ! i ! p) ! t)" .
qed

lemma length_valid_rev_signal:
  assumes "length z = Tv" "length x = T" "T + 1 = Tv + L" "0 < Tv" "0 < L"
  shows "length (convolve_valid (rev z) x) = L" "length (convolve_valid x (rev z)) = L"
proof -
  have "0 < T"
    using assms by linarith
  with assms(2) have "x \<noteq> []"
    by auto
  moreover have "rev z \<noteq> []"
    using assms(1,4) by auto
  ultimately have ne: "rev z \<noteq> []" "x \<noteq> []"
    by simp_all
  have m: "max Tv T - min Tv T + 1 = L"
    using assms by (simp add: max_def min_def)
  have "length (convolve_valid (rev z) x)
          = max (length (rev z)) (length x) - min (length (rev z)) (length x) + 1"
    by (rule length_convolve_valid [OF ne])
  then show "length (convolve_valid (rev z) x) = L"
    using m assms(1,2) by simp
  have "length (convolve_valid x (rev z))
          = max (length x) (length (rev z)) - min (length x) (length (rev z)) + 1"
    by (rule length_convolve_valid [OF ne(2,1)])
  then show "length (convolve_valid x (rev z)) = L"
    using m assms(1,2) by (simp add: max.commute min.commute)
qed

lemma nth_valid_rev_signal:
  assumes "length z = Tv" "length x = T" "T + 1 = Tv + L" "0 < Tv" "t < L"
  shows "convolve_valid (rev z) x ! t = (\<Sum>s<Tv. z ! s * x ! (t + s))"
    and "convolve_valid x (rev z) ! t = (\<Sum>s<Tv. z ! s * x ! (t + s))"
proof -
  have "0 < T"
    using assms by linarith
  with assms(2) have "x \<noteq> []"
    by auto
  moreover have "rev z \<noteq> []"
    using assms(1,4) by auto
  ultimately have ne: "rev z \<noteq> []" "x \<noteq> []"
    by simp_all
  have m: "min Tv T = Tv" "max Tv T - min Tv T + 1 = L" "t + Tv \<le> T"
    using assms by (simp_all add: max_def min_def)
  have "convolve_valid (rev z) x ! t = conv_at (rev z) x (t + Tv - 1)"
    using nth_convolve_valid [OF ne, of t] assms(1,2,5) m by simp
  then show "convolve_valid (rev z) x ! t = (\<Sum>s<Tv. z ! s * x ! (t + s))"
    by (simp only: conv_at_rev_signal [OF assms(2,1) m(3) assms(4)])
  have "convolve_valid x (rev z) ! t = conv_at x (rev z) (t + Tv - 1)"
    using nth_convolve_valid [OF ne(2,1), of t] assms(1,2,5) m
    by (simp add: max.commute min.commute)
  then show "convolve_valid x (rev z) ! t = (\<Sum>s<Tv. z ! s * x ! (t + s))"
    by (simp only: conv_at_signal_rev [OF assms(2,1) m(3) assms(4)])
qed

lemma constants_entries:
  assumes Z: "has_shape3 Z K N Tv" and X: "has_shape3 X N P T" and T: "T + 1 = Tv + L"
    and pos: "0 < K" "0 < N" "0 < P" "0 < Tv" "0 < L"
  shows "\<exists>c. get_d_update_constants X Z = Inr c
     \<and> has_shape3 (ZtX c) K P L
     \<and> (\<forall>k<K. \<forall>p<P. \<forall>t<L.
          ZtX c ! k ! p ! t = (\<Sum>i<N. \<Sum>s<Tv. Z ! k ! i ! s * X ! i ! p ! (t + s)))
     \<and> has_shape3 (ZtZ c) K K (2 * (L - 1) + 1)
     \<and> (\<forall>k<K. \<forall>k'<K. \<forall>j<2 * (L - 1) + 1.
          ZtZ c ! k ! k' ! j = (\<Sum>i<N. lag_dot (Z ! k ! i) (Z ! k' ! i) (L - 1) j))"
proof -
  let ?f = "\<lambda>z x. convolve_valid (rev z) x"
  let ?xs = "map (\<lambda>zk. map (\<lambda>(zik, xi). map (\<lambda>xip. ?f zik xip) xi) (zip zk X)) Z"
  let ?G = "map sum_mats ?xs"
  have len: "\<forall>u v. length u = Tv \<longrightarrow> length v = T \<longrightarrow> length (?f u v) = L"
    using length_valid_rev_signal(1) [OF _ _ T pos(4,5)] by blast
  note cs = comprehension_sum_entries [where f = ?f, OF Z X pos(1,2) len]
  have sZ: "shape3 Z = (K, N, Tv)"
    by (rule shape3_eq [OF Z pos(1,2)])
  have sX: "shape3 X = (N, P, T)"
    by (rule shape3_eq [OF X pos(2,3)])
  have d: "int T - int Tv + 1 = int L"
    using T by linarith
  obtain l where l: "L = Suc l"
    using pos(5) by (cases L) auto
  have n1: "nat (int T - int Tv + 1) = Suc (L - 1)"
    and n2: "nat (2 * (int T - int Tv + 1) - 1) = 2 * (L - 1) + 1"
    and n3: "\<not> 2 * (int T - int Tv + 1) - 1 < 0"
    unfolding d l by (simp_all add: nat_eq_iff)
  let ?zeros = "replicate K (replicate K (replicate (2 * (L - 1) + 1) (0::real)))"
  let ?c = "\<lparr>ZtZ = ZtZ_fill Z K N (Suc (L - 1)) ?zeros, ZtX = ?G, n_chan = P\<rparr>"
  have c: "get_d_update_constants X Z = Inr ?c"
    by (simp only: get_d_update_constants_def sZ sX prod.case Let_def cs(1) sum.case n1 n2 n3 if_False)
  have zs: "has_shape3 ?zeros K K (2 * (L - 1) + 1)"
    by (rule has_shape3_replicate)
  have e1: "\<forall>k<K. \<forall>p<P. \<forall>t<L.
          ?G ! k ! p ! t = (\<Sum>i<N. \<Sum>s<Tv. Z ! k ! i ! s * X ! i ! p ! (t + s))"
  proof (intro allI impI)
    fix k p t assume r: "k < K" "p < P" "t < L"
    have "?G ! k ! p ! t = (\<Sum>i<N. ?f (Z ! k ! i) (X ! i ! p) ! t)"
      by (rule cs(3) [OF r])
    also have "\<dots> = (\<Sum>i<N. \<Sum>s<Tv. Z ! k ! i ! s * X ! i ! p ! (t + s))"
    proof (rule sum.cong [OF refl])
      fix i assume "i \<in> {..<N}"
      then have "length (Z ! k ! i) = Tv" "length (X ! i ! p) = T"
        using Z X r by (simp_all add: has_shape3_iff)
      then show "?f (Z ! k ! i) (X ! i ! p) ! t = (\<Sum>s<Tv. Z ! k ! i ! s * X ! i ! p ! (t + s))"
        using T pos(4) r(3) by (rule nth_valid_rev_signal(1))
    qed
    finally show "?G ! k ! p ! t = (\<Sum>i<N. \<Sum>s<Tv. Z ! k ! i ! s * X ! i ! p ! (t + s))" .
  qed
  have e2: "\<forall>k<K. \<forall>k'<K. \<forall>j<2 * (L - 1) + 1.
          ZtZ_fill Z K N (Suc (L - 1)) ?zeros ! k ! k' ! j
            = (\<Sum>i<N. lag_dot (Z ! k ! i) (Z ! k' ! i) (L - 1) j)"
  proof (intro allI impI)
    fix k k' j assume r: "k < K" "k' < K" "j < 2 * (L - 1) + 1"
    have "?zeros ! k ! k' ! j = 0"
      using r by (simp del: replicate_Suc)
    with ZtZ_fill_entries(2) [OF zs r, of Z N]
    show "ZtZ_fill Z K N (Suc (L - 1)) ?zeros ! k ! k' ! j
            = (\<Sum>i<N. lag_dot (Z ! k ! i) (Z ! k' ! i) (L - 1) j)"
      by simp
  qed
  show ?thesis
    using c cs(2) e1 e2 ZtZ_fill_entries(1) [OF zs, of Z N] by auto
qed


lemma construct_X_multi_entries:
  assumes Z: "has_shape3 Z K N Tv" and D: "has_shape3 D K P L"
    and pos: "0 < K" "0 < N" "0 < P"
  shows "has_shape3 (construct_X_multi Z D) N P (Tv + L - 1)"
    and "\<And>i p n. i < N \<Longrightarrow> p < P \<Longrightarrow> n < Tv + L - 1 \<Longrightarrow>
           construct_X_multi Z D ! i ! p ! n = (\<Sum>k<K. conv_at (Z ! k ! i) (D ! k ! p) n)"
proof -
  have sZ: "shape3 Z = (K, N, Tv)"
    by (rule shape3_eq [OF Z pos(1,2)])
  have sD: "shape3 D = (K, P, L)"
    by (rule shape3_eq [OF D pos(1,3)])
  have eq: "construct_X_multi Z D =
      map (\<lambda>i. map (\<lambda>p. map (\<lambda>t. \<Sum>k<K. conv_at (Z ! k ! i) (D ! k ! p) t)
                             [0..<Tv + L - 1]) [0..<P]) [0..<N]"
    by (simp add: construct_X_multi_def sZ sD sum_list_upt)
  show "has_shape3 (construct_X_multi Z D) N P (Tv + L - 1)"
    by (simp add: eq has_shape3_iff)
  fix i p n assume "i < N" "p < P" "n < Tv + L - 1"
  then show "construct_X_multi Z D ! i ! p ! n = (\<Sum>k<K. conv_at (Z ! k ! i) (D ! k ! p) n)"
    by (simp add: eq)
qed

lemma direct_entries:
  assumes Z: "has_shape3 Z K N Tv" and X: "has_shape3 X N P T" and D: "has_shape3 D K P L"
    and T: "T + 1 = Tv + L"
    and pos: "0 < K" "0 < N" "0 < P" "0 < Tv" "0 < L"
  shows "\<exists>g. gradient_d D (Some X) (Some Z) None = Inr g
     \<and> has_shape3 g K P L
     \<and> (\<forall>k<K. \<forall>p<P. \<forall>t<L.
          g ! k ! p ! t
            = (\<Sum>i<N. \<Sum>s<Tv. Z ! k ! i ! s *
                 ((\<Sum>k'<K. conv_at (Z ! k' ! i) (D ! k' ! p) (t + s)) - X ! i ! p ! (t + s))))"
proof -
  have TT: "Tv + L - 1 = T"
    using T by simp
  let ?Xh = "construct_X_multi Z D"
  let ?R = "map2 (map2 (map2 (-))) ?Xh X"
  have sXh: "has_shape3 ?Xh N P T"
    using construct_X_multi_entries(1) [OF Z D pos(1,2,3)] by (simp only: TT)
  have res: "np_op3 (-) ?Xh X = Inr ?R"
    by (rule np_op3_same [OF sXh X])
  have sR: "has_shape3 ?R N P T"
    by (rule map2_3_entries(1) [OF sXh X])
  have eR: "?R ! i ! p ! n = (\<Sum>k<K. conv_at (Z ! k ! i) (D ! k ! p) n) - X ! i ! p ! n"
    if "i < N" "p < P" "n < T" for i p n
  proof -
    have "?R ! i ! p ! n = ?Xh ! i ! p ! n - X ! i ! p ! n"
      by (rule map2_3_entries(2) [OF sXh X that])
    moreover have "?Xh ! i ! p ! n = (\<Sum>k<K. conv_at (Z ! k ! i) (D ! k ! p) n)"
      using that T by (intro construct_X_multi_entries(2) [OF Z D pos(1,2,3)]) simp_all
    ultimately show ?thesis by simp
  qed
  let ?f = "\<lambda>z r. convolve_valid r (rev z)"
  let ?xs = "map (\<lambda>zk. map (\<lambda>(zik, res_i). map (\<lambda>res_ip. ?f zik res_ip) res_i) (zip zk ?R)) Z"
  let ?G = "map sum_mats ?xs"
  have len: "\<forall>u v. length u = Tv \<longrightarrow> length v = T \<longrightarrow> length (?f u v) = L"
    using length_valid_rev_signal(2) [OF _ _ T pos(4,5)] by blast
  note cs = comprehension_sum_entries [where f = ?f, OF Z sR pos(1,2) len]
  have g: "gradient_d D (Some X) (Some Z) None = Inr ?G"
    by (simp add: gradient_d_def res dense_transpose_convolve_def cs(1))
  have "\<forall>k<K. \<forall>p<P. \<forall>t<L.
          ?G ! k ! p ! t
            = (\<Sum>i<N. \<Sum>s<Tv. Z ! k ! i ! s *
                 ((\<Sum>k'<K. conv_at (Z ! k' ! i) (D ! k' ! p) (t + s)) - X ! i ! p ! (t + s)))"
  proof (intro allI impI)
    fix k p t assume r: "k < K" "p < P" "t < L"
    have "?G ! k ! p ! t = (\<Sum>i<N. ?f (Z ! k ! i) (?R ! i ! p) ! t)"
      by (rule cs(3) [OF r])
    also have "\<dots> = (\<Sum>i<N. \<Sum>s<Tv. Z ! k ! i ! s *
                 ((\<Sum>k'<K. conv_at (Z ! k' ! i) (D ! k' ! p) (t + s)) - X ! i ! p ! (t + s)))"
    proof (rule sum.cong [OF refl])
      fix i assume "i \<in> {..<N}"
      then have i: "i < N" by simp
      have l: "length (Z ! k ! i) = Tv" "length (?R ! i ! p) = T"
        using Z sR r i by (simp_all only: has_shape3_iff)
      have "?f (Z ! k ! i) (?R ! i ! p) ! t = (\<Sum>s<Tv. Z ! k ! i ! s * ?R ! i ! p ! (t + s))"
        using l T pos(4) r(3) by (rule nth_valid_rev_signal(2))
      also have "\<dots> = (\<Sum>s<Tv. Z ! k ! i ! s *
                 ((\<Sum>k'<K. conv_at (Z ! k' ! i) (D ! k' ! p) (t + s)) - X ! i ! p ! (t + s)))"
      proof (rule sum.cong [OF refl])
        fix s assume "s \<in> {..<Tv}"
        then have "t + s < T"
          using r(3) T by simp
        then show "Z ! k ! i ! s * ?R ! i ! p ! (t + s)
            = Z ! k ! i ! s *
                 ((\<Sum>k'<K. conv_at (Z ! k' ! i) (D ! k' ! p) (t + s)) - X ! i ! p ! (t + s))"
          by (simp only: eR [OF i r(2)])
      qed
      finally show "?f (Z ! k ! i) (?R ! i ! p) ! t
          = (\<Sum>s<Tv. Z ! k ! i ! s *
                 ((\<Sum>k'<K. conv_at (Z ! k' ! i) (D ! k' ! p) (t + s)) - X ! i ! p ! (t + s)))" .
    qed
    finally show "?G ! k ! p ! t
            = (\<Sum>i<N. \<Sum>s<Tv. Z ! k ! i ! s *
                 ((\<Sum>k'<K. conv_at (Z ! k' ! i) (D ! k' ! p) (t + s)) - X ! i ! p ! (t + s)))" .
  qed
  with g cs(2) show ?thesis
    by blast
qed


lemma nth_valid_statistics:
  assumes "length zz = 2 * (L - 1) + 1" "length d = L" "0 < L" "t < L"
  shows "length (convolve_valid zz d) = L"
    and "convolve_valid zz d ! t = (\<Sum>l<L. zz ! (L - 1 + t - l) * d ! l)"
proof -
  let ?M = "2 * (L - 1) + 1"
  have ne: "zz \<noteq> []" "d \<noteq> []"
    using assms by auto
  obtain n where n: "L = Suc n"
    using assms(3) by (cases L) auto
  have m: "min ?M L = L" "max ?M L - min ?M L + 1 = L"
    unfolding n by (simp_all add: max_def min_def)
  have "length (convolve_valid zz d)
          = max (length zz) (length d) - min (length zz) (length d) + 1"
    by (rule length_convolve_valid [OF ne])
  then show "length (convolve_valid zz d) = L"
    using m assms(1,2) by simp
  have "convolve_valid zz d ! t = conv_at zz d (t + min (length zz) (length d) - 1)"
    using assms(1,2,4) m by (intro nth_convolve_valid [OF ne]) simp
  also have "\<dots> = conv_at zz d (L - 1 + t)"
    using assms m by (simp add: add.commute)
  also have "\<dots> = (\<Sum>j<?M. \<Sum>l<L. if j + l = L - 1 + t then zz ! j * d ! l else 0)"
    by (rule conv_at_pairs [OF assms(1,2)])
  also have "\<dots> = (\<Sum>l<L. \<Sum>j<?M. if j + l = L - 1 + t then zz ! j * d ! l else 0)"
    by (rule sum.swap)
  also have "\<dots> = (\<Sum>l<L. zz ! (L - 1 + t - l) * d ! l)"
  proof (rule sum.cong [OF refl])
    fix l assume "l \<in> {..<L}"
    then have l: "l < L" by simp
    have "(\<Sum>j<?M. if j + l = L - 1 + t then zz ! j * d ! l else 0)
        = (\<Sum>j<?M. if j = L - 1 + t - l then zz ! j * d ! l else 0)"
      using l by (intro sum.cong) auto
    also have "\<dots> = zz ! (L - 1 + t - l) * d ! l"
    proof -
      have "L - 1 + t - l < ?M"
        using l assms(4) by linarith
      then show ?thesis
        by (simp add: sum.delta del: sum.lessThan_Suc)
    qed
    finally show "(\<Sum>j<?M. if j + l = L - 1 + t then zz ! j * d ! l else 0)
        = zz ! (L - 1 + t - l) * d ! l" .
  qed
  finally show "convolve_valid zz d ! t = (\<Sum>l<L. zz ! (L - 1 + t - l) * d ! l)" .
qed

lemma cached_entries:
  assumes ZZ: "has_shape3 (ZtZ c) K K (2 * (L - 1) + 1)" and ZX: "has_shape3 (ZtX c) K P L"
    and D: "has_shape3 D K P L"
    and pos: "0 < K" "0 < L"
  shows "\<exists>g. gradient_d D X' Z' (Some c) = Inr g
     \<and> has_shape3 g K P L
     \<and> (\<forall>k<K. \<forall>p<P. \<forall>t<L.
          g ! k ! p ! t
            = (\<Sum>k'<K. \<Sum>l<L. ZtZ c ! k ! k' ! (L - 1 + t - l) * D ! k' ! p ! l)
              - ZtX c ! k ! p ! t)"
proof -
  let ?f = "\<lambda>zz d. convolve_valid zz d"
  let ?xs = "map (\<lambda>zzk. map (\<lambda>(zzkk, dk). map (\<lambda>dkp. ?f zzkk dkp) dk) (zip zzk D)) (ZtZ c)"
  let ?G = "map sum_mats ?xs"
  let ?R = "map2 (map2 (map2 (-))) ?G (ZtX c)"
  obtain t0 where t0: "t0 < L"
    using pos(2) by blast
  have len: "\<forall>u v. length u = 2 * (L - 1) + 1 \<longrightarrow> length v = L \<longrightarrow> length (?f u v) = L"
    using nth_valid_statistics(1) [OF _ _ pos(2) t0] by blast
  note cs = comprehension_sum_entries [where f = ?f, OF ZZ D pos(1,1) len]
  have sub: "np_op3 (-) ?G (ZtX c) = Inr ?R"
    by (rule np_op3_same [OF cs(2) ZX])
  have g: "gradient_d D X' Z' (Some c) = Inr ?R"
    by (simp only: gradient_d_def option.case cs(1) sum.case sub)
  have sR: "has_shape3 ?R K P L"
    by (rule map2_3_entries(1) [OF cs(2) ZX])
  have "\<forall>k<K. \<forall>p<P. \<forall>t<L.
          ?R ! k ! p ! t
            = (\<Sum>k'<K. \<Sum>l<L. ZtZ c ! k ! k' ! (L - 1 + t - l) * D ! k' ! p ! l)
              - ZtX c ! k ! p ! t"
  proof (intro allI impI)
    fix k p t assume r: "k < K" "p < P" "t < L"
    have "?R ! k ! p ! t = ?G ! k ! p ! t - ZtX c ! k ! p ! t"
      by (rule map2_3_entries(2) [OF cs(2) ZX r])
    also have "?G ! k ! p ! t = (\<Sum>k'<K. ?f (ZtZ c ! k ! k') (D ! k' ! p) ! t)"
      by (rule cs(3) [OF r])
    also have "\<dots> = (\<Sum>k'<K. \<Sum>l<L. ZtZ c ! k ! k' ! (L - 1 + t - l) * D ! k' ! p ! l)"
    proof (rule sum.cong [OF refl])
      fix k' assume "k' \<in> {..<K}"
      then have "length (ZtZ c ! k ! k') = 2 * (L - 1) + 1" "length (D ! k' ! p) = L"
        using ZZ D r by (simp_all only: has_shape3_iff lessThan_iff)
      then show "?f (ZtZ c ! k ! k') (D ! k' ! p) ! t
          = (\<Sum>l<L. ZtZ c ! k ! k' ! (L - 1 + t - l) * D ! k' ! p ! l)"
        using pos(2) r(3) by (rule nth_valid_statistics(2))
    qed
    finally show "?R ! k ! p ! t
            = (\<Sum>k'<K. \<Sum>l<L. ZtZ c ! k ! k' ! (L - 1 + t - l) * D ! k' ! p ! l)
              - ZtX c ! k ! p ! t" .
  qed
  with g sR show ?thesis
    by blast
qed


lemma sum_reorder5:
  fixes F :: "nat \<Rightarrow> nat \<Rightarrow> nat \<Rightarrow> nat \<Rightarrow> nat \<Rightarrow> real"
  shows "(\<Sum>i<N. \<Sum>s<Tv. \<Sum>k<K. \<Sum>r<Tv. \<Sum>l<L. F k l i s r)
       = (\<Sum>k<K. \<Sum>l<L. \<Sum>i<N. \<Sum>s<Tv. \<Sum>r<Tv. F k l i s r)"
proof -
  have "(\<Sum>i<N. \<Sum>s<Tv. \<Sum>k<K. \<Sum>r<Tv. \<Sum>l<L. F k l i s r)
      = (\<Sum>i<N. \<Sum>s<Tv. \<Sum>k<K. \<Sum>l<L. \<Sum>r<Tv. F k l i s r)"
    by (rule sum.cong [OF refl], rule sum.cong [OF refl], rule sum.cong [OF refl], rule sum.swap)
  also have "\<dots> = (\<Sum>i<N. \<Sum>k<K. \<Sum>s<Tv. \<Sum>l<L. \<Sum>r<Tv. F k l i s r)"
    by (rule sum.cong [OF refl], rule sum.swap)
  also have "\<dots> = (\<Sum>k<K. \<Sum>i<N. \<Sum>s<Tv. \<Sum>l<L. \<Sum>r<Tv. F k l i s r)"
    by (rule sum.swap)
  also have "\<dots> = (\<Sum>k<K. \<Sum>i<N. \<Sum>l<L. \<Sum>s<Tv. \<Sum>r<Tv. F k l i s r)"
    by (rule sum.cong [OF refl], rule sum.cong [OF refl], rule sum.swap)
  also have "\<dots> = (\<Sum>k<K. \<Sum>l<L. \<Sum>i<N. \<Sum>s<Tv. \<Sum>r<Tv. F k l i s r)"
    by (rule sum.cong [OF refl], rule sum.swap)
  finally show ?thesis .
qed

lemma gradient_identity:
  assumes Z: "has_shape3 Z K N Tv" and D: "has_shape3 D K P L"
    and r: "k < K" "p < P" "t < L"
  shows "(\<Sum>k'<K. \<Sum>l<L. (\<Sum>i<N. lag_dot (Z ! k ! i) (Z ! k' ! i) (L - 1) (L - 1 + t - l))
                         * D ! k' ! p ! l)
         - (\<Sum>i<N. \<Sum>s<Tv. Z ! k ! i ! s * X ! i ! p ! (t + s))
       = (\<Sum>i<N. \<Sum>s<Tv. Z ! k ! i ! s *
            ((\<Sum>k'<K. conv_at (Z ! k' ! i) (D ! k' ! p) (t + s)) - X ! i ! p ! (t + s)))"
proof -
  define F where "F k' l i s s' =
      (if s' + l = t + s then Z ! k ! i ! s * Z ! k' ! i ! s' * D ! k' ! p ! l else 0)"
    for k' l i s s'
  have lZ: "length (Z ! a ! i) = Tv" if "a < K" "i < N" for a i
    using Z that by (simp add: has_shape3_iff)
  have lD: "length (D ! a ! p) = L" if "a < K" for a
    using D that r(2) by (simp add: has_shape3_iff)
  have A: "(\<Sum>i<N. lag_dot (Z ! k ! i) (Z ! k' ! i) (L - 1) (L - 1 + t - l)) * D ! k' ! p ! l
         = (\<Sum>i<N. \<Sum>s<Tv. \<Sum>s'<Tv. F k' l i s s')" if "k' < K" "l < L" for k' l
  proof -
    have tl: "t \<le> L - 1" "l \<le> L - 1"
      using r(3) that(2) by simp_all
    have "(\<Sum>i<N. lag_dot (Z ! k ! i) (Z ! k' ! i) (L - 1) (L - 1 + t - l)) * D ! k' ! p ! l
        = (\<Sum>i<N. lag_dot (Z ! k ! i) (Z ! k' ! i) (L - 1) (L - 1 + t - l) * D ! k' ! p ! l)"
      by (rule sum_distrib_right)
    also have "\<dots> = (\<Sum>i<N. \<Sum>s<Tv. \<Sum>s'<Tv. F k' l i s s')"
    proof (rule sum.cong [OF refl])
      fix i assume "i \<in> {..<N}"
      then have i: "i < N" by simp
      have "lag_dot (Z ! k ! i) (Z ! k' ! i) (L - 1) (L - 1 + t - l)
          = (\<Sum>s<Tv. \<Sum>s'<Tv. if s' + l = t + s
                                 then Z ! k ! i ! s * Z ! k' ! i ! s' else 0)"
        by (rule lag_dot_pairs [OF lZ [OF r(1) i] lZ [OF that(1) i] tl])
      then show "lag_dot (Z ! k ! i) (Z ! k' ! i) (L - 1) (L - 1 + t - l) * D ! k' ! p ! l
          = (\<Sum>s<Tv. \<Sum>s'<Tv. F k' l i s s')"
        by (simp add: F_def sum_distrib_right if_distrib [of "\<lambda>x. x * _"] cong: if_cong)
    qed
    finally show ?thesis .
  qed
  have B: "Z ! k ! i ! s * (\<Sum>k'<K. conv_at (Z ! k' ! i) (D ! k' ! p) (t + s))
         = (\<Sum>k'<K. \<Sum>s'<Tv. \<Sum>l<L. F k' l i s s')" if "i < N" for i s
  proof -
    have "Z ! k ! i ! s * (\<Sum>k'<K. conv_at (Z ! k' ! i) (D ! k' ! p) (t + s))
        = (\<Sum>k'<K. Z ! k ! i ! s * conv_at (Z ! k' ! i) (D ! k' ! p) (t + s))"
      by (rule sum_distrib_left)
    also have "\<dots> = (\<Sum>k'<K. \<Sum>s'<Tv. \<Sum>l<L. F k' l i s s')"
    proof (rule sum.cong [OF refl])
      fix k' assume "k' \<in> {..<K}"
      then have k': "k' < K" by simp
      have "conv_at (Z ! k' ! i) (D ! k' ! p) (t + s)
          = (\<Sum>s'<Tv. \<Sum>l<L. if s' + l = t + s
                                then Z ! k' ! i ! s' * D ! k' ! p ! l else 0)"
        by (rule conv_at_pairs [OF lZ [OF k' that] lD [OF k']])
      then show "Z ! k ! i ! s * conv_at (Z ! k' ! i) (D ! k' ! p) (t + s)
          = (\<Sum>s'<Tv. \<Sum>l<L. F k' l i s s')"
        by (simp add: F_def sum_distrib_left if_distrib [of "\<lambda>x. _ * x"] mult.assoc cong: if_cong)
    qed
    finally show ?thesis .
  qed
  have "(\<Sum>k'<K. \<Sum>l<L. (\<Sum>i<N. lag_dot (Z ! k ! i) (Z ! k' ! i) (L - 1) (L - 1 + t - l))
                         * D ! k' ! p ! l)
      = (\<Sum>k'<K. \<Sum>l<L. \<Sum>i<N. \<Sum>s<Tv. \<Sum>s'<Tv. F k' l i s s')"
    by (intro sum.cong refl A) simp_all
  also have "\<dots> = (\<Sum>i<N. \<Sum>s<Tv. \<Sum>k'<K. \<Sum>s'<Tv. \<Sum>l<L. F k' l i s s')"
    by (rule sum_reorder5 [symmetric])
  also have "\<dots> = (\<Sum>i<N. \<Sum>s<Tv. Z ! k ! i ! s *
                        (\<Sum>k'<K. conv_at (Z ! k' ! i) (D ! k' ! p) (t + s)))"
    by (intro sum.cong refl B [symmetric]) simp
  finally have first:
    "(\<Sum>k'<K. \<Sum>l<L. (\<Sum>i<N. lag_dot (Z ! k ! i) (Z ! k' ! i) (L - 1) (L - 1 + t - l))
                         * D ! k' ! p ! l)
      = (\<Sum>i<N. \<Sum>s<Tv. Z ! k ! i ! s *
                        (\<Sum>k'<K. conv_at (Z ! k' ! i) (D ! k' ! p) (t + s)))" .
  show ?thesis
    unfolding first by (simp add: right_diff_distrib sum_subtractf)
qed

text \<open>
  C1: for a code tensor, a data tensor and a full atom tensor of consistent shapes, the
  gradient that \<^verbatim>\<open>_gradient_d\<close> computes from the statistics of
  \<^verbatim>\<open>_get_d_update_constants\<close> and the gradient it computes from the residual
  \<^verbatim>\<open>construct_X_multi(Z, D) - X\<close> are the same array; in exact arithmetic the two
  paths are identical.
\<close>

theorem gradient_d_paths_agree:
  assumes "has_shape3 Z n_atoms n_trials n_times_valid"
    and "has_shape3 X n_trials n_channels n_times"
    and "has_shape3 D n_atoms n_channels n_times_atom"
    and "n_times + 1 = n_times_valid + n_times_atom"
    and "0 < n_atoms" "0 < n_trials" "0 < n_channels" "0 < n_times_valid" "0 < n_times_atom"
  shows "\<exists>c g. get_d_update_constants X Z = Inr c
     \<and> gradient_d D X' Z' (Some c) = Inr g
     \<and> gradient_d D (Some X) (Some Z) None = Inr g"
proof -
  let ?K = n_atoms and ?N = n_trials and ?P = n_channels and ?Tv = n_times_valid
    and ?L = n_times_atom
  from constants_entries [OF assms(1,2,4-9)]
  obtain c where c: "get_d_update_constants X Z = Inr c"
    and sZX: "has_shape3 (ZtX c) ?K ?P ?L"
    and eZX: "\<forall>k<?K. \<forall>p<?P. \<forall>t<?L.
          ZtX c ! k ! p ! t = (\<Sum>i<?N. \<Sum>s<?Tv. Z ! k ! i ! s * X ! i ! p ! (t + s))"
    and sZZ: "has_shape3 (ZtZ c) ?K ?K (2 * (?L - 1) + 1)"
    and eZZ: "\<forall>k<?K. \<forall>k'<?K. \<forall>j<2 * (?L - 1) + 1.
          ZtZ c ! k ! k' ! j = (\<Sum>i<?N. lag_dot (Z ! k ! i) (Z ! k' ! i) (?L - 1) j)"
    by blast
  from cached_entries [OF sZZ sZX assms(3,5,9), of X' Z']
  obtain g where g: "gradient_d D X' Z' (Some c) = Inr g"
    and sg: "has_shape3 g ?K ?P ?L"
    and eg: "\<forall>k<?K. \<forall>p<?P. \<forall>t<?L.
          g ! k ! p ! t
            = (\<Sum>k'<?K. \<Sum>l<?L. ZtZ c ! k ! k' ! (?L - 1 + t - l) * D ! k' ! p ! l)
              - ZtX c ! k ! p ! t"
    by blast
  from direct_entries [OF assms]
  obtain h where h: "gradient_d D (Some X) (Some Z) None = Inr h"
    and sh: "has_shape3 h ?K ?P ?L"
    and eh: "\<forall>k<?K. \<forall>p<?P. \<forall>t<?L.
          h ! k ! p ! t
            = (\<Sum>i<?N. \<Sum>s<?Tv. Z ! k ! i ! s *
                 ((\<Sum>k'<?K. conv_at (Z ! k' ! i) (D ! k' ! p) (t + s)) - X ! i ! p ! (t + s)))"
    by blast
  have "g = h"
  proof (rule ten_eqI [OF sg sh])
    fix k p t assume r: "k < ?K" "p < ?P" "t < ?L"
    have "g ! k ! p ! t
        = (\<Sum>k'<?K. \<Sum>l<?L. ZtZ c ! k ! k' ! (?L - 1 + t - l) * D ! k' ! p ! l)
          - ZtX c ! k ! p ! t"
      using eg r by blast
    also have "(\<Sum>k'<?K. \<Sum>l<?L. ZtZ c ! k ! k' ! (?L - 1 + t - l) * D ! k' ! p ! l)
        = (\<Sum>k'<?K. \<Sum>l<?L. (\<Sum>i<?N. lag_dot (Z ! k ! i) (Z ! k' ! i) (?L - 1) (?L - 1 + t - l))
                            * D ! k' ! p ! l)"
    proof (intro sum.cong refl)
      fix k' l assume "k' \<in> {..<?K}" "l \<in> {..<?L}"
      then have "k' < ?K" "?L - 1 + t - l < 2 * (?L - 1) + 1"
        using r(3) by auto
      with eZZ r(1)
      show "ZtZ c ! k ! k' ! (?L - 1 + t - l) * D ! k' ! p ! l
          = (\<Sum>i<?N. lag_dot (Z ! k ! i) (Z ! k' ! i) (?L - 1) (?L - 1 + t - l)) * D ! k' ! p ! l"
        by simp
    qed
    also have "ZtX c ! k ! p ! t = (\<Sum>i<?N. \<Sum>s<?Tv. Z ! k ! i ! s * X ! i ! p ! (t + s))"
      using eZX r by blast
    also have "(\<Sum>k'<?K. \<Sum>l<?L. (\<Sum>i<?N. lag_dot (Z ! k ! i) (Z ! k' ! i) (?L - 1) (?L - 1 + t - l))
                            * D ! k' ! p ! l)
         - (\<Sum>i<?N. \<Sum>s<?Tv. Z ! k ! i ! s * X ! i ! p ! (t + s))
       = (\<Sum>i<?N. \<Sum>s<?Tv. Z ! k ! i ! s *
            ((\<Sum>k'<?K. conv_at (Z ! k' ! i) (D ! k' ! p) (t + s)) - X ! i ! p ! (t + s)))"
      by (rule gradient_identity [OF assms(1,3) r])
    also have "\<dots> = h ! k ! p ! t"
      using eh r by simp
    finally show "g ! k ! p ! t = h ! k ! p ! t" .
  qed
  with c g h show ?thesis
    by blast
qed

theorem gradient_d_paths_agree_witness:
  "\<exists>c g. get_d_update_constants [[[1, 0, 2]]] [[[1, 2]], [[3, 1]]] = Inr c
     \<and> gradient_d [[[1, 0]], [[2, 1]]] None None (Some c) = Inr g
     \<and> gradient_d [[[1, 0]], [[2, 1]]] (Some [[[1, 0, 2]]]) (Some [[[1, 2]], [[3, 1]]]) None
         = Inr g"
proof -
  have "has_shape3 [[[1, 2]], [[3, 1]]] 2 1 2" "has_shape3 [[[1, 0, 2]]] 1 1 3"
    "has_shape3 [[[1, 0]], [[2, 1]]] 2 1 2"
    by (simp_all add: has_shape3_def)
  then show ?thesis
    by (rule gradient_d_paths_agree) simp_all
qed

section \<open>Properties of the projector in binary64 arithmetic\<close>

lemma isqrt_bits_numeral [simp]:
  "isqrt_bits (numeral k) n r =
     isqrt_bits (pred_numeral k) n
       (if (r + 2 ^ pred_numeral k) ^ 2 \<le> n then r + 2 ^ pred_numeral k else r)"
  by (simp add: numeral_eq_Suc)

lemma bit_length_numeral [simp]:
  "bit_length (numeral k) = bit_length (numeral k div 2) + 1"
  "bit_length 0 = 0" "bit_length 1 = 1"
  by (subst bit_length.simps, simp)+

lemmas f64_eval = round_f64_def ilog2_def pow2_def nearest_even_def sqrt_f64_def isqrt_def
  norm2_f64_def norm_uv_f64_def prox_uv_f64_def Let_def

lemma round_f64_zero: "round_f64 0 = Fin 0"
  by (simp add: round_f64_def)

lemma fmaximum_one_ne_zero: "fmaximum (Fin 1) d \<noteq> Fin 0"
  by (cases d) (simp_all add: max_def)

lemma foldl_fadd_zeros: "foldl fadd (Fin 0) (replicate n (Fin 0)) = Fin 0"
  by (induction n) (simp_all add: round_f64_zero)

lemma norm2_f64_zeros: "norm2_f64 (replicate n (Fin 0)) = Fin 0"
  by (cases n) (simp_all add: norm2_f64_def round_f64_zero foldl_fadd_zeros)

lemma norm_uv_f64_nth:
  "i < length uv \<Longrightarrow> norm_uv_f64 uv ! i = [fmaximum (Fin 1) (norm2_f64 (uv ! i))]"
  by (simp add: norm_uv_f64_def)

lemma prox_uv_f64_nth:
  "i < length uv \<Longrightarrow>
   prox_uv_f64 uv ! i = map (\<lambda>x. fdiv x (fmaximum (Fin 1) (norm2_f64 (uv ! i)))) (uv ! i)"
  by (simp add: prox_uv_f64_def norm_uv_f64_def)

lemma prox_uv_f64_zero_row:
  assumes "i < length uv" "uv ! i = replicate n (Fin 0)"
  shows "prox_uv_f64 uv ! i = replicate n (Fin 0)"
  using assms by (simp add: prox_uv_f64_nth norm2_f64_zeros round_f64_zero)

text \<open>The row \<open>[4.75, 7.25]\<close>, projected once and twice, and a row whose squares overflow.\<close>

lemma norm2_f64_ex: "norm2_f64 [Fin (19 / 4), Fin (29 / 4)] = Fin (1219837664290223 / 2 ^ 47)"
  by (simp add: f64_eval)

lemma prox_uv_f64_once:
  "prox_uv_f64 [[Fin (19 / 4), Fin (29 / 4)]]
   = [[Fin (2468090848214495 / 2 ^ 52), Fin (1883543015742641 / 2 ^ 51)]]"
  by (simp add: f64_eval)

lemma norm2_f64_once:
  "norm2_f64 [Fin (2468090848214495 / 2 ^ 52), Fin (1883543015742641 / 2 ^ 51)]
   = Fin (1 + 1 / 2 ^ 52)"
  by (simp add: f64_eval)

lemma prox_uv_f64_again:
  "prox_uv_f64 [[Fin (2468090848214495 / 2 ^ 52), Fin (1883543015742641 / 2 ^ 51)]]
   = [[Fin (4936181696428989 / 2 ^ 53), Fin (3767086031485281 / 2 ^ 52)]]"
  by (simp add: f64_eval)

lemma prox_uv_f64_overflow: "prox_uv_f64 [[Fin (2 ^ 512), Fin (2 ^ 512)]] = [[Fin 0, Fin 0]]"
  by (simp add: f64_eval)

text \<open>
  C3 as stated fails in binary64 arithmetic: the row \<open>[4.75, 7.25]\<close> projected once
  has the computed norm \<open>1 + 2 ^ -52\<close>, so a second projection divides it again and
  changes the last bit of both entries.
\<close>

theorem prox_uv_f64_twice_counterexample:
  "prox_uv_f64 [[Fin (19 / 4), Fin (29 / 4)]]
     = [[Fin (2468090848214495 / 2 ^ 52), Fin (1883543015742641 / 2 ^ 51)]]
   \<and> prox_uv_f64 (prox_uv_f64 [[Fin (19 / 4), Fin (29 / 4)]])
     = [[Fin (4936181696428989 / 2 ^ 53), Fin (3767086031485281 / 2 ^ 52)]]
   \<and> prox_uv_f64 (prox_uv_f64 [[Fin (19 / 4), Fin (29 / 4)]])
     \<noteq> prox_uv_f64 [[Fin (19 / 4), Fin (29 / 4)]]"
  using prox_uv_f64_once prox_uv_f64_again by simp

text \<open>
  C2 as stated fails in binary64 arithmetic: the row \<open>[4.75, 7.25]\<close>, of norm above 8,
  has the computed norm \<open>1 + 2 ^ -52\<close> after the projection, not 1; and the row
  \<open>[2 ^ 512, 2 ^ 512]\<close>, whose squares overflow, comes back as zeros, of norm 0.
\<close>

theorem prox_uv_f64_norm_counterexample:
  "norm2_f64 [Fin (19 / 4), Fin (29 / 4)] = Fin (1219837664290223 / 2 ^ 47)
   \<and> norm2_f64 (prox_uv_f64 [[Fin (19 / 4), Fin (29 / 4)]] ! 0) = Fin (1 + 1 / 2 ^ 52)
   \<and> prox_uv_f64 [[Fin (2 ^ 512), Fin (2 ^ 512)]] = [[Fin 0, Fin 0]]"
  using norm2_f64_ex prox_uv_f64_once norm2_f64_once prox_uv_f64_overflow by simp

text \<open>
  C9: the projector returns a row for every row it is given; every row is divided by its
  entry of \<open>norm_uv\<close>, which is \<open>max 1 (norm2 row)\<close>, at least 1 and so never 0; and a row
  of zeros comes back as the same row of zeros. In binary64 arithmetic, where \<open>0 / 0\<close>
  is NaN, the divisor is never 0 either and a row of zeros still comes back as zeros.
\<close>

theorem prox_uv_divisor_ge_1:
  "length (prox_uv uv) = length uv
   \<and> (i < length uv \<longrightarrow>
        norm_uv uv ! i = [max 1 (norm2 (uv ! i))] \<and> 1 \<le> hd (norm_uv uv ! i)
        \<and> hd (norm_uv uv ! i) \<noteq> 0
        \<and> prox_uv uv ! i = map (\<lambda>x. x / hd (norm_uv uv ! i)) (uv ! i)
        \<and> (uv ! i = replicate n 0 \<longrightarrow> prox_uv uv ! i = replicate n 0))
   \<and> (j < length fv \<longrightarrow>
        hd (norm_uv_f64 fv ! j) \<noteq> Fin 0
        \<and> prox_uv_f64 fv ! j = map (\<lambda>x. fdiv x (hd (norm_uv_f64 fv ! j))) (fv ! j)
        \<and> (fv ! j = replicate n (Fin 0) \<longrightarrow> prox_uv_f64 fv ! j = replicate n (Fin 0)))"
proof -
  have "1 \<le> max 1 (norm2 (uv ! i))"
    by simp
  then have "max 1 (norm2 (uv ! i)) \<noteq> 0"
    by linarith
  then have "length (prox_uv uv) = length uv
   \<and> (i < length uv \<longrightarrow>
        norm_uv uv ! i = [max 1 (norm2 (uv ! i))] \<and> 1 \<le> hd (norm_uv uv ! i)
        \<and> hd (norm_uv uv ! i) \<noteq> 0
        \<and> prox_uv uv ! i = map (\<lambda>x. x / hd (norm_uv uv ! i)) (uv ! i)
        \<and> (uv ! i = replicate n 0 \<longrightarrow> prox_uv uv ! i = replicate n 0))"
    by (simp add: length_prox_uv norm_uv_nth prox_uv_nth)
  moreover have "j < length fv \<longrightarrow>
        hd (norm_uv_f64 fv ! j) \<noteq> Fin 0
        \<and> prox_uv_f64 fv ! j = map (\<lambda>x. fdiv x (hd (norm_uv_f64 fv ! j))) (fv ! j)
        \<and> (fv ! j = replicate n (Fin 0) \<longrightarrow> prox_uv_f64 fv ! j = replicate n (Fin 0))"
  proof (intro impI conjI)
    assume j: "j < length fv"
    show "hd (norm_uv_f64 fv ! j) \<noteq> Fin 0"
      using j by (simp add: norm_uv_f64_nth fmaximum_one_ne_zero)
    show "prox_uv_f64 fv ! j = map (\<lambda>x. fdiv x (hd (norm_uv_f64 fv ! j))) (fv ! j)"
      using j by (simp add: norm_uv_f64_nth prox_uv_f64_nth)
    assume "fv ! j = replicate n (Fin 0)"
    with j show "prox_uv_f64 fv ! j = replicate n (Fin 0)"
      by (rule prox_uv_f64_zero_row)
  qed
  ultimately show ?thesis
    by blast
qed

theorem prox_uv_divisor_ge_1_witness:
  "prox_uv [[0, 0, 0], [1 / 2, 0, 0]] ! 0 = [0, 0, 0]
   \<and> hd (norm_uv [[0, 0, 0], [1 / 2, 0, 0]] ! 1) = 1
   \<and> prox_uv [[0, 0, 0], [1 / 2, 0, 0]] ! 1 = [1 / 2, 0, 0]
   \<and> prox_uv_f64 [[Fin 0, Fin 0, Fin 0]] ! 0 = [Fin 0, Fin 0, Fin 0]"
  using prox_uv_divisor_ge_1 [of "[[0, 0, 0], [1 / 2, 0, 0]]" 0 3 0 "[[Fin 0, Fin 0, Fin 0]]"]
    prox_uv_divisor_ge_1 [of "[[0, 0, 0], [1 / 2, 0, 0]]" 1 3 0 "[[Fin 0, Fin 0, Fin 0]]"]
  by (simp add: norm2_def numeral_3_eq_3 real_sqrt_divide)

end
